theory Spec2Isabelle
  imports Main "HOL-Library.Word" "HOL-Library.Signed_Division"
begin

unbundle bit_operations_syntax

section \<open>Machine model\<close>

text \<open>
  The DDR5 training code of liblitedram (\<^verbatim>\<open>ddr5_training.c\<close>) and its eye scanner
  (\<^verbatim>\<open>utils/eye_detection_helper.c\<close>) are embedded as HOL functions over an explicit
  machine state. C \<^verbatim>\<open>int\<close> values (tap counts, indices, delays) are modelled by
  \<^typ>\<open>int\<close>: every quantity below is bounded by a small multiple of the tap count, so
  no computation leaves the 32-bit range for the tap counts a build can have. Bit masks
  (\<^verbatim>\<open>uint32_t\<close>, \<^verbatim>\<open>int32_t\<close>) are \<^typ>\<open>32 word\<close>. C division truncates
  towards zero: it is \<^const>\<open>signed_divide\<close>, not \<^const>\<open>divide\<close>.

  Behaviour that C leaves undefined is a \<^emph>\<open>fault\<close>, returned as \<open>Inl\<close>: an array access
  outside the helper array, a shift of a 32-bit value by 32 or more, a remainder by zero.
\<close>

datatype fault = OutOfBounds | ShiftOutOfRange | DivisionByZero

text \<open>
  The delay lines of the PHY. The functions behind \<^verbatim>\<open>ctx->ck.rst_dly\<close>,
  \<^verbatim>\<open>ctx->cs.inc_dly\<close>, \<^verbatim>\<open>wr_dq_inc\<close>, \<^verbatim>\<open>odly_dm_rst\<close> and their siblings live in
  \<^verbatim>\<open>ddr5_helpers\<close>, which is not part of the sources at hand. The three signal classes
  reached through the context take \<open>(channel, rank, address)\<close>; the data-path lines take
  \<open>(channel, module)\<close> (and the constant die width, left out of the selector).
\<close>

datatype dline =
    CK_line int int int
  | CS_line int int int
  | CA_line int int int
  | WR_DQ_line int int
  | ODLY_DQ_line int int
  | ODLY_DM_line int int
  | WR_DQS_line int int
  | ODLY_DQS_line int int

text \<open>
  The training functions report their results with \<^verbatim>\<open>printf\<close>. The console keeps the
  results the properties below speak about; headings and labels are left out.
\<close>

datatype msg =
    Tap int                 \<comment> \<open>the verdict of one tap: \<^verbatim>\<open>printf("%d", works)\<close>\<close>
  | Cycle int               \<comment> \<open>the cycle heading of a data scan: \<^verbatim>\<open>printf("%2d|", cycle)\<close>\<close>
  | Training_rank int       \<comment> \<open>\<^verbatim>\<open>printf("Training rank%2d", rank)\<close>\<close>
  | CA_window int int int   \<comment> \<open>\<^verbatim>\<open>printf("CA[%d] %d:%d", address, right_side, left_side)\<close>\<close>
  | CA_failed int           \<comment> \<open>\<^verbatim>\<open>printf("CA line:%2d Eye width:0 Failed", address)\<close>\<close>
  | Serial_number int int   \<comment> \<open>the module and its serial number, as \<^verbatim>\<open>rank_read_check\<close> prints them\<close>

record mach =
  helper_arr :: "32 word list"             \<comment> \<open>\<^verbatim>\<open>static int32_t helper_arr[2*MAX(64, SDRAM_PHY_DELAYS)]\<close>\<close>
  helper_arr_it :: int                     \<comment> \<open>\<^verbatim>\<open>static int32_t helper_arr_it\<close>\<close>
  helper_modules_without_shift :: "32 word"
  helper_modules_seen :: "32 word"
  seen_working :: bool
  tick :: nat                              \<comment> \<open>number of hardware probes issued so far\<close>
  dly :: "dline \<Rightarrow> int"                    \<comment> \<open>taps counted up on each delay line since its reset\<close>
  console :: "msg list"                    \<comment> \<open>results printed so far, oldest first\<close>

text \<open>The machine as the program finds it: a helper array \<open>a\<close>, nothing probed or printed yet.\<close>

definition mach_init :: "32 word list \<Rightarrow> mach" where
  "mach_init a =
     \<lparr>helper_arr = a, helper_arr_it = 0, helper_modules_without_shift = 0,
      helper_modules_seen = 0, seen_working = False, tick = 0, dly = (\<lambda>_. 0), console = []\<rparr>"

text \<open>
  Modelled from the spec: the register-access layer (\<^verbatim>\<open>ddr5_helpers\<close>, absent). The spec
  says of it that the hardware counter of a delay line is reset and then counted up, with
  no decrement: \<open>rst_dly\<close> sets the counter of the selected line to zero and \<open>inc_dly\<close>
  adds one tap to it.
\<close>

definition rst_dly :: "dline \<Rightarrow> mach \<Rightarrow> mach" where
  "rst_dly l m = m\<lparr>dly := (dly m)(l := 0)\<rparr>"

definition inc_dly :: "dline \<Rightarrow> mach \<Rightarrow> mach" where
  "inc_dly l m = m\<lparr>dly := (dly m)(l := dly m l + 1)\<rparr>"

text \<open>
  The idiom \<^verbatim>\<open>rst(); for (i = 0; i < n; ++i) inc();\<close> that programs a delay line to
  \<open>n\<close> taps. The loop body runs \<open>nat n\<close> times: not at all for a negative \<open>n\<close>.
\<close>

definition set_dly :: "dline \<Rightarrow> int \<Rightarrow> mach \<Rightarrow> mach" where
  "set_dly l n m = (inc_dly l ^^ nat n) (rst_dly l m)"

section \<open>Sequencing and counted loops\<close>

text \<open>A step that faulted ends the run; otherwise the next step takes its result.\<close>

fun bindE :: "fault + 'a \<Rightarrow> ('a \<Rightarrow> fault + 'b) \<Rightarrow> fault + 'b" where
  "bindE (Inl e) f = Inl e"
| "bindE (Inr x) f = f x"

text \<open>
  The counted loop \<^verbatim>\<open>for (i = a; i < n; ++i) body\<close> on a state, for the loops that
  have no \<^verbatim>\<open>break\<close> and no \<^verbatim>\<open>return\<close> in their body and whose bound no iteration
  changes: without and with faults.
\<close>

function for_loop :: "int \<Rightarrow> int \<Rightarrow> (int \<Rightarrow> 's \<Rightarrow> 's) \<Rightarrow> 's \<Rightarrow> 's" where
  "for_loop i n body s = (if i < n then for_loop (i + 1) n body (body i s) else s)"
  by pat_completeness auto
termination
  by (relation "measure (\<lambda>(i, n, body, s). nat (n - i))") auto

declare for_loop.simps [simp del]

function for_loopE ::
  "int \<Rightarrow> int \<Rightarrow> (int \<Rightarrow> 's \<Rightarrow> fault + 's) \<Rightarrow> 's \<Rightarrow> fault + 's" where
  "for_loopE i n body s =
     (if i < n then
        (case body i s of
           Inl e \<Rightarrow> Inl e
         | Inr s' \<Rightarrow> for_loopE (i + 1) n body s')
      else Inr s)"
  by pat_completeness auto
termination
  by (relation "measure (\<lambda>(i, n, body, s). nat (n - i))") auto

declare for_loopE.simps [simp del]

text \<open>What a run ends in: a fault that satisfies \<open>Q\<close> or a result that satisfies \<open>P\<close>.\<close>

definition post :: "(fault \<Rightarrow> bool) \<Rightarrow> ('a \<Rightarrow> bool) \<Rightarrow> fault + 'a \<Rightarrow> bool" where
  "post Q P r = (case r of Inl e \<Rightarrow> Q e | Inr x \<Rightarrow> P x)"

section \<open>Eye scanner (\<^verbatim>\<open>eye_detection_helper.c\<close>)\<close>

text \<open>\<^verbatim>\<open>#define UNSET_DELAY 0xefff\<close>\<close>

definition UNSET_DELAY :: int where
  "UNSET_DELAY = 61439"

text \<open>
  \<^verbatim>\<open>static int32_t helper_arr[2*MAX(64, SDRAM_PHY_DELAYS)]\<close>: the capacity of the helper
  array for a build whose \<^verbatim>\<open>SDRAM_PHY_DELAYS\<close> is \<open>d\<close>. The macro comes from the generated
  header \<^verbatim>\<open>sdram_phy.h\<close> and is a parameter here.
\<close>

definition helper_arr_capacity :: "int \<Rightarrow> nat" where
  "helper_arr_capacity d = nat (2 * max 64 d)"

text \<open>A read of \<^verbatim>\<open>helper_arr[i]\<close>.\<close>

definition rd :: "32 word list \<Rightarrow> int \<Rightarrow> fault + 32 word" where
  "rd a i = (if 0 \<le> i \<and> i < int (length a) then Inr (a ! nat i) else Inl OutOfBounds)"

definition clear_helper_arr :: "mach \<Rightarrow> mach" where
  "clear_helper_arr m =
     m\<lparr>helper_arr_it := 0, helper_arr := replicate (length (helper_arr m)) 0\<rparr>"

definition set_helper_arr_value_and_advance :: "32 word \<Rightarrow> mach \<Rightarrow> fault + mach" where
  "set_helper_arr_value_and_advance v m =
     (if 0 \<le> helper_arr_it m \<and> helper_arr_it m < int (length (helper_arr m))
      then Inr (m\<lparr>helper_arr := (helper_arr m)[nat (helper_arr_it m) := v],
                  helper_arr_it := helper_arr_it m + 1\<rparr>)
      else Inl OutOfBounds)"

text \<open>The loop \<^verbatim>\<open>for (int it = 1; it < max; ++it) if (helper_arr[it]) return 1;\<close>\<close>

function one_in_loop :: "32 word list \<Rightarrow> int \<Rightarrow> int \<Rightarrow> fault + int" where
  "one_in_loop a mx it =
     (if it < mx then
        (case rd a it of
           Inl e \<Rightarrow> Inl e
         | Inr v \<Rightarrow> if v \<noteq> 0 then Inr 1 else one_in_loop a mx (it + 1))
      else Inr 0)"
  by pat_completeness auto
termination
  by (relation "measure (\<lambda>(a, mx, it). nat (mx - it))") auto

declare one_in_loop.simps [simp del]

definition one_in_helper_arr :: "mach \<Rightarrow> int \<Rightarrow> fault + int" where
  "one_in_helper_arr m mx =
     (case rd (helper_arr m) 0 of
        Inl e \<Rightarrow> Inl e
      | Inr v \<Rightarrow> if v \<noteq> 0 then Inr (- 1) else one_in_loop (helper_arr m) mx 1)"

text \<open>The loop \<^verbatim>\<open>for (int it = 0; it < max; ++it) if (!helper_arr[it]) return it;\<close>\<close>

function one_stride_loop :: "32 word list \<Rightarrow> int \<Rightarrow> int \<Rightarrow> fault + int" where
  "one_stride_loop a mx it =
     (if it < mx then
        (case rd a it of
           Inl e \<Rightarrow> Inl e
         | Inr v \<Rightarrow> if v = 0 then Inr it else one_stride_loop a mx (it + 1))
      else Inr mx)"
  by pat_completeness auto
termination
  by (relation "measure (\<lambda>(a, mx, it). nat (mx - it))") auto

declare one_stride_loop.simps [simp del]

definition one_stride_helper_arr :: "mach \<Rightarrow> int \<Rightarrow> fault + int" where
  "one_stride_helper_arr m mx = one_stride_loop (helper_arr m) mx 0"

text \<open>
  The loop of \<^verbatim>\<open>find_eye_in_helper_arr\<close>. The result carries a flag telling whether the
  function returned from inside the loop, and the values of \<^verbatim>\<open>*left\<close> and \<^verbatim>\<open>*right\<close>.
\<close>

function find_eye_loop ::
  "32 word list \<Rightarrow> int \<Rightarrow> int \<Rightarrow> int \<Rightarrow> int \<Rightarrow> fault + (bool \<times> int \<times> int)" where
  "find_eye_loop a mx it left right =
     (if it < 2 * mx then
        (case rd a it of
           Inl e \<Rightarrow> Inl e
         | Inr v \<Rightarrow>
             (let right' = (if v \<noteq> 0 \<and> right = UNSET_DELAY then it else right)
              in if v = 0 \<and> right' \<noteq> UNSET_DELAY then Inr (True, it, right')
                 else find_eye_loop a mx (it + 1) left right'))
      else Inr (False, left, right))"
  by pat_completeness auto
termination
  by (relation "measure (\<lambda>(a, mx, it, left, right). nat (2 * mx - it))") auto

declare find_eye_loop.simps [simp del]

text \<open>
  \<^verbatim>\<open>void find_eye_in_helper_arr(int *left, int *right, int max)\<close>: the two in-out
  parameters are arguments, and the result is the pair \<open>(*left, *right)\<close> on return.
\<close>

definition find_eye_in_helper_arr :: "mach \<Rightarrow> int \<Rightarrow> int \<Rightarrow> int \<Rightarrow> fault + (int \<times> int)" where
  "find_eye_in_helper_arr m left right mx =
     (case find_eye_loop (helper_arr m) mx 0 left right of
        Inl e \<Rightarrow> Inl e
      | Inr (returned, l, r) \<Rightarrow>
          if returned then Inr (l, r)
          else (case rd (helper_arr m) (2 * mx - 1) of
                  Inl e \<Rightarrow> Inl e
                | Inr v \<Rightarrow> Inr (if v \<noteq> 0 then 2 * mx else l, r)))"

text \<open>Sample ranges of the helper array: indices \<open>i \<le> k < j\<close>.\<close>

definition samples_zero :: "32 word list \<Rightarrow> int \<Rightarrow> int \<Rightarrow> bool" where
  "samples_zero a i j = (\<forall>k\<in>{i..<j}. a ! nat k = 0)"

definition samples_nonzero :: "32 word list \<Rightarrow> int \<Rightarrow> int \<Rightarrow> bool" where
  "samples_nonzero a i j = (\<forall>k\<in>{i..<j}. a ! nat k \<noteq> 0)"

text \<open>
  A helper array whose first non-zero sample sits at index \<open>0xefff\<close>, the value of
  \<^const>\<open>UNSET_DELAY\<close>.
\<close>

definition sentinel_buffer :: "32 word list" where
  "sentinel_buffer = replicate 61439 0 @ [1, 1, 0]"

section \<open>Eyes and the training context\<close>

text \<open>
  \<^verbatim>\<open>eye_t\<close> and \<^verbatim>\<open>DEFAULT_EYE\<close> as \<^verbatim>\<open>lpddr5_helpers.h\<close> declares them (the DDR5
  header is not at hand; the DDR5 code tests \<^verbatim>\<open>eye.start\<close> against the same \<open>-1\<close>).
  The fields are prefixed, \<^verbatim>\<open>end\<close> being a keyword.
\<close>

datatype eye_state = BEFORE | INSIDE | AFTER

record eye_t =
  e_state :: eye_state
  e_start :: int
  e_center :: int
  e_end :: int

definition DEFAULT_EYE :: eye_t where
  "DEFAULT_EYE = \<lparr>e_state = BEFORE, e_start = - 1, e_center = - 1, e_end = - 1\<rparr>"

datatype training_type = HOST_DRAM | HOST_RCD | RCD_DRAM

text \<open>
  \<^verbatim>\<open>training_ctx_t\<close>, with the fields the modelled functions use. The arrays
  \<^verbatim>\<open>cs.delays[channel][rank][2]\<close>, \<^verbatim>\<open>ca.delays[channel][address][2]\<close> and the
  \<^verbatim>\<open>final_delays\<close> are total functions of their indices (their bounds are declared in
  the absent header). The function pointers \<^verbatim>\<open>cs.check\<close> and \<^verbatim>\<open>ca.check\<close> answer for
  the hardware: they may depend on the whole machine state, in particular on the programmed
  delays and on the number of probes issued so far.
\<close>

record training_ctx =
  channels :: int
  ranks :: int
  modules :: int
  die_width :: int
  max_delay_taps :: int
  training_type :: training_type
  RDIMM :: bool
  cs_check :: "mach \<Rightarrow> int \<Rightarrow> int \<Rightarrow> int \<Rightarrow> int \<Rightarrow> int \<Rightarrow> int \<Rightarrow> 32 word"
  cs_invert :: "int \<Rightarrow> int"
  cs_delays :: "int \<Rightarrow> int \<Rightarrow> int \<Rightarrow> int"
  cs_coarse_delays :: "int \<Rightarrow> int \<Rightarrow> int"
  cs_final_delays :: "int \<Rightarrow> int \<Rightarrow> int"
  ca_check :: "mach \<Rightarrow> int \<Rightarrow> int \<Rightarrow> int \<Rightarrow> int \<Rightarrow> int"
  ca_line_count :: int
  ca_delays :: "int \<Rightarrow> int \<Rightarrow> int \<Rightarrow> int"
  ca_final_delays :: "int \<Rightarrow> int \<Rightarrow> int"

text \<open>
  A direct-attach context with one channel, one rank, one module and four taps, whose
  checks never succeed; the examples below vary it.
\<close>

definition sample_ctx :: training_ctx where
  "sample_ctx =
     \<lparr>channels = 1, ranks = 1, modules = 1, die_width = 8, max_delay_taps = 4,
      training_type = HOST_DRAM, RDIMM = False,
      cs_check = (\<lambda>_ _ _ _ _ _ _. 0), cs_invert = (\<lambda>_. 0), cs_delays = (\<lambda>_ _ _. 0),
      cs_coarse_delays = (\<lambda>_ _. 0), cs_final_delays = (\<lambda>_ _. 0),
      ca_check = (\<lambda>_ _ _ _ _. 0), ca_line_count = 1, ca_delays = (\<lambda>_ _ _. 0),
      ca_final_delays = (\<lambda>_ _. 0)\<rparr>"

text \<open>The same context with a chip-select check that reports module 0 under either shift.\<close>

definition both_shifts_ctx :: training_ctx where
  "both_shifts_ctx = sample_ctx\<lparr>cs_check := (\<lambda>_ _ _ _ _ _ _. 1)\<rparr>"

text \<open>
  The answers of the memory device to the data-path tests. The test functions are part of
  \<^verbatim>\<open>ddr5_training.c\<close>, but what they return is decided by the device behind
  \<^verbatim>\<open>send_write\<close>, \<^verbatim>\<open>send_read\<close>, \<^verbatim>\<open>send_mrr\<close> and \<^verbatim>\<open>get_data_module_phase\<close>, which
  are not at hand. An answer may depend on the whole machine state. The arguments are
  \<open>channel\<close>, \<open>rank\<close>, \<open>module\<close> and what the test takes beyond them.
\<close>

record device =
  wr_serial_works :: "mach \<Rightarrow> int \<Rightarrow> int \<Rightarrow> int \<Rightarrow> int"
  wr_lfsr_works :: "mach \<Rightarrow> int \<Rightarrow> int \<Rightarrow> int \<Rightarrow> int"
  wr_dm_lfsr_works :: "mach \<Rightarrow> int \<Rightarrow> int \<Rightarrow> int \<Rightarrow> int \<Rightarrow> int \<Rightarrow> int"
  rd_preamble_cycle :: "mach \<Rightarrow> int \<Rightarrow> int \<Rightarrow> int \<Rightarrow> int"
  rd_data_scan_ok :: "mach \<Rightarrow> int \<Rightarrow> int \<Rightarrow> int \<Rightarrow> int \<Rightarrow> bool"
  scratch_pad_works :: "mach \<Rightarrow> int \<Rightarrow> int \<Rightarrow> int \<Rightarrow> int"
  serial_number :: "mach \<Rightarrow> int \<Rightarrow> int \<Rightarrow> int \<Rightarrow> int"

text \<open>A device that fails every test.\<close>

definition dead_device :: device where
  "dead_device =
     \<lparr>wr_serial_works = (\<lambda>_ _ _ _. 0), wr_lfsr_works = (\<lambda>_ _ _ _. 0),
      wr_dm_lfsr_works = (\<lambda>_ _ _ _ _ _. 0), rd_preamble_cycle = (\<lambda>_ _ _ _. - 1),
      rd_data_scan_ok = (\<lambda>_ _ _ _ _. False), scratch_pad_works = (\<lambda>_ _ _ _. 0),
      serial_number = (\<lambda>_ _ _ _. 0)\<rparr>"


text \<open>One more probe of the hardware has been issued.\<close>

definition probe :: "mach \<Rightarrow> mach" where
  "probe m = m\<lparr>tick := Suc (tick m)\<rparr>"

definition printf :: "msg \<Rightarrow> mach \<Rightarrow> mach" where
  "printf x m = m\<lparr>console := console m @ [x]\<rparr>"

section \<open>Write leveling (\<^verbatim>\<open>write_leveling\<close>)\<close>

text \<open>
  The adjustment before internal write leveling (\<^verbatim>\<open>WL_ADJ_start\<close>), on the pair
  \<open>(transition_cycle, transition_delay)\<close>:
  \<^verbatim>\<open>transition_cycle -= 1; transition_delay += ctx->max_delay_taps/4;
  if (transition_delay >= ctx->max_delay_taps) { transition_cycle += 1;
  transition_delay -= ctx->max_delay_taps; }\<close>
\<close>

definition wl_adj_start :: "training_ctx \<Rightarrow> int \<times> int \<Rightarrow> int \<times> int" where
  "wl_adj_start ctx cd =
     (let transition_cycle = fst cd - 1;
          transition_delay = snd cd + max_delay_taps ctx sdiv 4
      in if transition_delay \<ge> max_delay_taps ctx
         then (transition_cycle + 1, transition_delay - max_delay_taps ctx)
         else (transition_cycle, transition_delay))"

text \<open>The adjustment after internal write leveling: the same with \<^verbatim>\<open>transition_cycle += 1\<close>.\<close>

definition wl_adj_end :: "training_ctx \<Rightarrow> int \<times> int \<Rightarrow> int \<times> int" where
  "wl_adj_end ctx cd =
     (let transition_cycle = fst cd + 1;
          transition_delay = snd cd + max_delay_taps ctx sdiv 4
      in if transition_delay \<ge> max_delay_taps ctx
         then (transition_cycle + 1, transition_delay - max_delay_taps ctx)
         else (transition_cycle, transition_delay))"

text \<open>The total offset, in taps, that a cycle and delay pair stands for.\<close>

definition wl_total :: "training_ctx \<Rightarrow> int \<times> int \<Rightarrow> int" where
  "wl_total ctx cd = fst cd * max_delay_taps ctx + snd cd"

text \<open>
  \<^verbatim>\<open>write_leveling\<close>. The three searches it calls (\<^verbatim>\<open>wltm_align_external_cycle\<close>,
  \<^verbatim>\<open>wltm_align_to_eye_edge\<close>, \<^verbatim>\<open>wltm_align_internal_cycle\<close>) are driven by the
  responses of the device and are parameters: the external search yields the transition
  cycle, the edge search takes the cycle and yields the pair of the cycle it stopped at and
  the delay it found.
\<close>

record wl_searches =
  wltm_align_external_cycle :: "int \<Rightarrow> int \<Rightarrow> int \<Rightarrow> int \<Rightarrow> mach \<Rightarrow> int \<times> mach"
  wltm_align_to_eye_edge :: "int \<Rightarrow> int \<Rightarrow> int \<Rightarrow> int \<Rightarrow> int \<Rightarrow> int \<Rightarrow> mach \<Rightarrow> (int \<times> int) \<times> mach"
  wltm_align_internal_cycle :: "int \<Rightarrow> int \<Rightarrow> int \<Rightarrow> int \<Rightarrow> mach \<Rightarrow> mach"

definition program_dqs :: "int \<Rightarrow> int \<Rightarrow> int \<times> int \<Rightarrow> mach \<Rightarrow> mach" where
  "program_dqs channel module cd m =
     set_dly (ODLY_DQS_line channel module) (snd cd)
       (set_dly (WR_DQS_line channel module) (fst cd) m)"

definition write_leveling ::
  "wl_searches \<Rightarrow> training_ctx \<Rightarrow> int \<Rightarrow> int \<Rightarrow> int \<Rightarrow> mach \<Rightarrow> int \<times> mach" where
  "write_leveling ws ctx channel rank module m =
     (let m = rst_dly (ODLY_DQS_line channel module) m;
          (transition_cycle, m) =
             wltm_align_external_cycle ws channel rank module (die_width ctx) m
      in if transition_cycle = - 1 then (transition_cycle, m)
         else
           (let (cd, m) = wltm_align_to_eye_edge ws channel rank module (die_width ctx)
                            (max_delay_taps ctx) transition_cycle m;
                cd = wl_adj_start ctx cd;
                m = program_dqs channel module cd m;
                m = wltm_align_internal_cycle ws channel rank module (die_width ctx) m;
                (cd, m) = wltm_align_to_eye_edge ws channel rank module (die_width ctx)
                            (max_delay_taps ctx) (fst cd) m;
                cd = wl_adj_end ctx cd;
                m = program_dqs channel module cd m
            in (fst cd, m)))"

text \<open>
  Searches for the examples: the external search finds the transition in cycle 10, the
  edge search keeps the cycle it is given and finds the edge at delay 3.
\<close>

definition sample_searches :: wl_searches where
  "sample_searches =
     \<lparr>wltm_align_external_cycle = (\<lambda>_ _ _ _ m. (10, probe m)),
      wltm_align_to_eye_edge = (\<lambda>_ _ _ _ _ cycle m. ((cycle, 3), probe m)),
      wltm_align_internal_cycle = (\<lambda>_ _ _ _ m. probe m)\<rparr>"

section \<open>Data-mask eye scan (\<^verbatim>\<open>moduel_dm_scan\<close>)\<close>

text \<open>
  \<^verbatim>\<open>write_dm_lfsr_check\<close> writes and reads back one byte under the data mask and returns
  whether the device answered as expected; the answer is the device's.
\<close>

definition write_dm_lfsr_check ::
  "device \<Rightarrow> training_ctx \<Rightarrow> int \<Rightarrow> int \<Rightarrow> int \<Rightarrow> int \<Rightarrow> int \<Rightarrow> mach \<Rightarrow> int \<times> mach" where
  "write_dm_lfsr_check dev ctx channel rank module byte mr5 m =
     (wr_dm_lfsr_works dev m channel rank module byte mr5, probe m)"

text \<open>
  \<^verbatim>\<open>for (byte = 0; byte < 16 && works; ++byte)
      write_dm_lfsr_check(ctx, channel, rank, module, byte, mr5);\<close>
  The call is a statement: its value is dropped and \<open>works\<close> is not assigned.
\<close>

function dm_byte_loop ::
  "device \<Rightarrow> training_ctx \<Rightarrow> int \<Rightarrow> int \<Rightarrow> int \<Rightarrow> int \<Rightarrow> int \<Rightarrow> int \<Rightarrow> mach \<Rightarrow> mach" where
  "dm_byte_loop dev ctx channel rank module mr5 works byte m =
     (if byte < 16 \<and> works \<noteq> 0
      then dm_byte_loop dev ctx channel rank module mr5 works (byte + 1)
             (snd (write_dm_lfsr_check dev ctx channel rank module byte mr5 m))
      else m)"
  by pat_completeness auto
termination
  by (relation "measure (\<lambda>(dev, ctx, channel, rank, module, mr5, works, byte, m). nat (16 - byte))")
     auto

declare dm_byte_loop.simps [simp del]

text \<open>
  The loop \<^verbatim>\<open>for (delay = 0; delay < ctx->max_delay_taps && eye_dm.state != AFTER; ++delay)\<close>.
\<close>

function dm_delay_loop ::
  "device \<Rightarrow> training_ctx \<Rightarrow> int \<Rightarrow> int \<Rightarrow> int \<Rightarrow> int \<Rightarrow> int \<Rightarrow> eye_t \<Rightarrow> mach \<Rightarrow> eye_t \<times> mach" where
  "dm_delay_loop dev ctx channel rank module mr5 delay eye_dm m =
     (if delay < max_delay_taps ctx \<and> e_state eye_dm \<noteq> AFTER then
        (let works = (1::int);
             m = dm_byte_loop dev ctx channel rank module mr5 works 0 m;
             m = printf (Tap works) m;
             eye_dm = (if works \<noteq> 0 \<and> e_state eye_dm = BEFORE
                       then eye_dm\<lparr>e_start := delay, e_state := INSIDE\<rparr> else eye_dm);
             eye_dm = (if works = 0 \<and> e_state eye_dm = INSIDE
                       then eye_dm\<lparr>e_end := delay, e_state := AFTER\<rparr>
                       else if delay = max_delay_taps ctx - 1 \<and> e_state eye_dm = INSIDE
                       then eye_dm\<lparr>e_end := delay + 1, e_state := AFTER\<rparr>
                       else eye_dm);
             m = inc_dly (ODLY_DM_line channel module) m
         in dm_delay_loop dev ctx channel rank module mr5 (delay + 1) eye_dm m)
      else (eye_dm, m))"
  by pat_completeness auto
termination
  by (relation "measure (\<lambda>(dev, ctx, channel, rank, module, mr5, delay, eye_dm, m).
                   nat (max_delay_taps ctx - delay))") auto

declare dm_delay_loop.simps [simp del]

text \<open>
  \<^verbatim>\<open>moduel_dm_scan\<close> (the name is the source's). The result is \<open>good\<close> and the machine
  with the DM output delay programmed to the middle of the eye.
\<close>

definition moduel_dm_scan ::
  "device \<Rightarrow> training_ctx \<Rightarrow> int \<Rightarrow> int \<Rightarrow> int \<Rightarrow> int \<Rightarrow> mach \<Rightarrow> bool \<times> mach" where
  "moduel_dm_scan dev ctx channel rank module mr5 m =
     (let good = True;
          m = rst_dly (ODLY_DM_line channel module) m;
          (eye_dm, m) = dm_delay_loop dev ctx channel rank module mr5 0 DEFAULT_EYE m;
          good = (good \<and> e_state eye_dm = AFTER);
          eye_dm = eye_dm\<lparr>e_center := e_end eye_dm - e_start eye_dm\<rparr>;
          middle_delay = (e_start eye_dm + e_end eye_dm) sdiv 2;
          m = set_dly (ODLY_DM_line channel module) middle_delay m
      in (good, m))"

text \<open>
  The end of \<^verbatim>\<open>module_vref_scan\<close>, from the comment \<^verbatim>\<open>// DM training\<close> on:
  \<^verbatim>\<open>if ((mr5 & 0x20) && ctx->die_width > 4)
      if (!moduel_dm_scan(ctx, channel, rank, module, mr5)) return -1;
  return best_vref;\<close>
  with \<^verbatim>\<open>uint8_t mr5\<close> as read from the module and \<open>best_vref\<close> as found before.
\<close>

definition module_vref_scan_dm ::
  "device \<Rightarrow> training_ctx \<Rightarrow> int \<Rightarrow> int \<Rightarrow> int \<Rightarrow> 8 word \<Rightarrow> int \<Rightarrow> mach \<Rightarrow> int \<times> mach" where
  "module_vref_scan_dm dev ctx channel rank module mr5 best_vref m =
     (if mr5 AND 0x20 \<noteq> 0 \<and> die_width ctx > 4 then
        (let (good, m) = moduel_dm_scan dev ctx channel rank module (uint mr5) m
         in if \<not> good then (- 1, m) else (best_vref, m))
      else (best_vref, m))"

section \<open>Write data-eye scan (\<^verbatim>\<open>write_data_scan\<close>)\<close>




















section \<open>Read training (\<^verbatim>\<open>sdram_ddr5_read_training\<close>)\<close>

text \<open>
  The steps of read training on one module. The preamble search (a) returns the cycle in
  which the preamble starts, or \<open>-1\<close>; the data scan (b) returns whether it found an eye;
  the scratch-pad self-test \<^verbatim>\<open>simple_read_check\<close> (c) returns 1 when the four bytes read
  back as written and 0 otherwise. What they return is the device's answer.
\<close>

definition find_read_preamble_cycle ::
  "device \<Rightarrow> int \<Rightarrow> int \<Rightarrow> int \<Rightarrow> int \<Rightarrow> int \<Rightarrow> mach \<Rightarrow> int \<times> mach" where
  "find_read_preamble_cycle dev channel rank module width max_taps m =
     (rd_preamble_cycle dev m channel rank module, probe m)"

definition read_training_data_scan ::
  "device \<Rightarrow> int \<Rightarrow> int \<Rightarrow> int \<Rightarrow> int \<Rightarrow> int \<Rightarrow> int \<Rightarrow> mach \<Rightarrow> bool \<times> mach" where
  "read_training_data_scan dev channel rank module width max_taps preamble_cycle m =
     (rd_data_scan_ok dev m channel rank module preamble_cycle, probe m)"

definition simple_read_check ::
  "device \<Rightarrow> int \<Rightarrow> int \<Rightarrow> int \<Rightarrow> int \<Rightarrow> mach \<Rightarrow> int \<times> mach" where
  "simple_read_check dev channel rank module width m =
     (scratch_pad_works dev m channel rank module, probe m)"

definition read_serial_number ::
  "device \<Rightarrow> int \<Rightarrow> int \<Rightarrow> int \<Rightarrow> int \<Rightarrow> mach \<Rightarrow> int \<times> mach" where
  "read_serial_number dev channel rank module width m =
     (serial_number dev m channel rank module, probe m)"

text \<open>
  The module loop of \<^verbatim>\<open>rank_read_training\<close>: a module whose preamble is not found is
  skipped (\<^verbatim>\<open>good &= false; continue\<close>), a module whose data scan fails clears \<open>good\<close>.
\<close>

function rrt_module_loop ::
  "device \<Rightarrow> int \<Rightarrow> int \<Rightarrow> int \<Rightarrow> int \<Rightarrow> int \<Rightarrow> int \<Rightarrow> bool \<Rightarrow> mach \<Rightarrow> bool \<times> mach" where
  "rrt_module_loop dev channel rank nmodules width max_taps module good m =
     (if module < nmodules then
        (let (preamble_cycle, m) =
               find_read_preamble_cycle dev channel rank module width max_taps m
         in if preamble_cycle = - 1
            then rrt_module_loop dev channel rank nmodules width max_taps (module + 1)
                   (good \<and> False) m
            else
              (let (found, m) = read_training_data_scan dev channel rank module width
                                  max_taps preamble_cycle m;
                   good = (if \<not> found then good \<and> False else good)
               in rrt_module_loop dev channel rank nmodules width max_taps (module + 1)
                    good m))
      else (good, m))"
  by pat_completeness auto
termination
  by (relation "measure (\<lambda>(dev, channel, rank, nmodules, width, max_taps, module, good, m).
                   nat (nmodules - module))") auto

declare rrt_module_loop.simps [simp del]

text \<open>
  \<^verbatim>\<open>rank_read_training\<close>. Entering and leaving the read preamble training mode writes
  mode registers only.
\<close>

definition rank_read_training ::
  "device \<Rightarrow> int \<Rightarrow> int \<Rightarrow> int \<Rightarrow> int \<Rightarrow> int \<Rightarrow> mach \<Rightarrow> bool \<times> mach" where
  "rank_read_training dev channel rank nmodules width max_taps m =
     rrt_module_loop dev channel rank nmodules width max_taps 0 True m"

text \<open>The first loop of \<^verbatim>\<open>rank_read_check\<close>: read and print the serial number of each module.\<close>

function rrc_serial_loop ::
  "device \<Rightarrow> int \<Rightarrow> int \<Rightarrow> int \<Rightarrow> int \<Rightarrow> int \<Rightarrow> mach \<Rightarrow> mach" where
  "rrc_serial_loop dev channel rank nmodules width module m =
     (if module < nmodules then
        (let (sn, m) = read_serial_number dev channel rank module width m;
             m = printf (Serial_number module sn) m
         in rrc_serial_loop dev channel rank nmodules width (module + 1) m)
      else m)"
  by pat_completeness auto
termination
  by (relation "measure (\<lambda>(dev, channel, rank, nmodules, width, module, m).
                   nat (nmodules - module))") auto

declare rrc_serial_loop.simps [simp del]

text \<open>
  The second loop:
  \<^verbatim>\<open>if (read_back_check) { if (!simple_read_check(...)) { good &= false; continue; } }\<close>
\<close>

function rrc_check_loop ::
  "device \<Rightarrow> int \<Rightarrow> int \<Rightarrow> int \<Rightarrow> int \<Rightarrow> bool \<Rightarrow> int \<Rightarrow> bool \<Rightarrow> mach \<Rightarrow> bool \<times> mach" where
  "rrc_check_loop dev channel rank nmodules width read_back_check module good m =
     (if module < nmodules then
        (if read_back_check then
           (let (works, m) = simple_read_check dev channel rank module width m
            in if works = 0
               then rrc_check_loop dev channel rank nmodules width read_back_check
                      (module + 1) (good \<and> False) m
               else rrc_check_loop dev channel rank nmodules width read_back_check
                      (module + 1) good m)
         else rrc_check_loop dev channel rank nmodules width read_back_check
                (module + 1) good m)
      else (good, m))"
  by pat_completeness auto
termination
  by (relation "measure (\<lambda>(dev, channel, rank, nmodules, width, rbc, module, good, m).
                   nat (nmodules - module))") auto

declare rrc_check_loop.simps [simp del]

text \<open>
  \<^verbatim>\<open>rank_read_check\<close>, for the default \<^verbatim>\<open>_read_verbosity = 0\<close> (the register dump of the
  third loop is debug output).
\<close>

definition rank_read_check ::
  "device \<Rightarrow> int \<Rightarrow> int \<Rightarrow> int \<Rightarrow> int \<Rightarrow> bool \<Rightarrow> mach \<Rightarrow> bool \<times> mach" where
  "rank_read_check dev channel rank nmodules width read_back_check m =
     (let m = rrc_serial_loop dev channel rank nmodules width 0 m
      in rrc_check_loop dev channel rank nmodules width read_back_check 0 True m)"







fun rank_runs ::
  "device \<Rightarrow> training_ctx \<Rightarrow> (int \<times> int) list \<Rightarrow> mach \<Rightarrow> (bool \<times> mach \<times> bool \<times> mach) list" where
  "rank_runs dev ctx [] m = []"
| "rank_runs dev ctx (cr # steps) m =
     (let (t, m1) = rank_read_training dev (fst cr) (snd cr) (modules ctx) (die_width ctx)
                      (max_delay_taps ctx) (printf (Training_rank (snd cr)) m);
          (c, m2) = rank_read_check dev (fst cr) (snd cr) (modules ctx) (die_width ctx)
                      (training_type ctx = HOST_DRAM \<and> \<not> RDIMM ctx) m1
      in (t, m1, c, m2) # rank_runs dev ctx steps m2)"






section \<open>Chip-select scan (\<^verbatim>\<open>CS_scan\<close>)\<close>

text \<open>
  \<^verbatim>\<open>reduce_cs\<close>. The counter \<^verbatim>\<open>module\<close> is a \<^verbatim>\<open>uint32_t\<close>, so the comparison
  \<^verbatim>\<open>module < modules\<close> converts \<^verbatim>\<open>modules\<close> to unsigned: the bound of the loop is
  \<open>modules mod 2 ^ 32\<close>. A shift \<^verbatim>\<open>cs >> module\<close> by 32 or more is undefined.
\<close>

function reduce_cs_loop :: "32 word \<Rightarrow> int \<Rightarrow> int \<Rightarrow> 32 word \<Rightarrow> fault + 32 word" where
  "reduce_cs_loop cs bound module ok =
     (if module < bound then
        (if module \<ge> 32 then Inl ShiftOutOfRange
         else reduce_cs_loop cs bound (module + 1) (ok AND (drop_bit (nat module) cs AND 1)))
      else Inr ok)"
  by pat_completeness auto
termination
  by (relation "measure (\<lambda>(cs, bound, module, ok). nat (bound - module))") auto

declare reduce_cs_loop.simps [simp del]

definition reduce_cs :: "32 word \<Rightarrow> int \<Rightarrow> fault + int" where
  "reduce_cs cs nmodules =
     (case reduce_cs_loop cs (nmodules mod 2 ^ 32) 0 1 of
        Inl e \<Rightarrow> Inl e
      | Inr ok \<Rightarrow> Inr (if ok \<noteq> 0 then 1 else 0))"

text \<open>
  The one fault a chip-select scan with room in the helper array can end in: the shift of
  \<^verbatim>\<open>reduce_cs\<close>, for a module count outside \<open>[0, 32]\<close>.
\<close>

definition shift_fault :: "training_ctx \<Rightarrow> fault \<Rightarrow> bool" where
  "shift_fault ctx e = (e = ShiftOutOfRange \<and> \<not> (0 \<le> modules ctx \<and> modules ctx \<le> 32))"

text \<open>
  One probe through \<^verbatim>\<open>ctx->cs.check(channel, rank, 0, shift, ctx->modules, ctx->die_width)\<close>.
\<close>

definition cs_probe :: "training_ctx \<Rightarrow> int \<Rightarrow> int \<Rightarrow> int \<Rightarrow> mach \<Rightarrow> 32 word \<times> mach" where
  "cs_probe ctx channel rank shift m =
     (cs_check ctx m channel rank 0 shift (modules ctx) (die_width ctx), probe m)"

text \<open>
  The treatment of the primary-shift mask in \<^verbatim>\<open>CS_scan_single\<close>:
  \<^verbatim>\<open>if (!seen_working) { helper_modules_without_shift = 0; helper_modules_seen = 0; }
  helper = works & helper_modules_without_shift;
  works = helper == helper_modules_without_shift ? works : 0;
  helper = works & ~helper_modules_without_shift;
  works = (helper & ~helper_modules_seen) == helper ? works : 0;
  helper_modules_without_shift |= works;
  helper_modules_seen |= works;\<close>
\<close>

definition cs_filter_primary :: "32 word \<Rightarrow> mach \<Rightarrow> 32 word \<times> mach" where
  "cs_filter_primary works m =
     (let m = (if \<not> seen_working m
               then m\<lparr>helper_modules_without_shift := 0, helper_modules_seen := 0\<rparr> else m);
          helper = works AND helper_modules_without_shift m;
          works = (if helper = helper_modules_without_shift m then works else 0);
          helper = works AND NOT (helper_modules_without_shift m);
          works = (if helper AND NOT (helper_modules_seen m) = helper then works else 0);
          m = m\<lparr>helper_modules_without_shift := helper_modules_without_shift m OR works\<rparr>;
          m = m\<lparr>helper_modules_seen := helper_modules_seen m OR works\<rparr>
      in (works, m))"

text \<open>
  The treatment of the opposite-shift mask:
  \<^verbatim>\<open>helper = works_ & ~helper_modules_without_shift;
  works_ = helper == works_ ? works_ : 0;
  helper_modules_seen |= works_;\<close>
\<close>

definition cs_filter_opposite :: "32 word \<Rightarrow> mach \<Rightarrow> 32 word \<times> mach" where
  "cs_filter_opposite works' m =
     (let helper = works' AND NOT (helper_modules_without_shift m);
          works' = (if helper = works' then works' else 0);
          m = m\<lparr>helper_modules_seen := helper_modules_seen m OR works'\<rparr>
      in (works', m))"

text \<open>\<^verbatim>\<open>works = works & works_ ? 0 : works | works_;\<close>\<close>

definition cs_combine :: "32 word \<Rightarrow> 32 word \<Rightarrow> 32 word" where
  "cs_combine works works' = (if works AND works' \<noteq> 0 then 0 else works OR works')"

text \<open>\<^verbatim>\<open>!shift\<close> on an \<^verbatim>\<open>int\<close>.\<close>

definition lnot :: "int \<Rightarrow> int" where
  "lnot x = (if x = 0 then 1 else 0)"

text \<open>
  The mask a tap is judged by: the primary-shift probe and its treatment, then, unless
  the RCD is being trained, the opposite-shift probe and its treatment, then the
  combination. The body of the loop of \<^verbatim>\<open>CS_scan_single\<close> up to its \<^verbatim>\<open>printf\<close>.
\<close>

definition cs_tap_mask :: "training_ctx \<Rightarrow> int \<Rightarrow> int \<Rightarrow> int \<Rightarrow> mach \<Rightarrow> 32 word \<times> mach" where
  "cs_tap_mask ctx channel rank shift_0101 m =
     (let (works, m) = cs_probe ctx channel rank shift_0101 m;
          (works, m) = cs_filter_primary works m;
          (works', m) =
             (if training_type ctx \<noteq> HOST_RCD
              then (let (works', m) = cs_probe ctx channel rank (lnot shift_0101) m
                    in cs_filter_opposite works' m)
              else (0, m))
      in (cs_combine works works', m))"

text \<open>
  One iteration of the loop of \<^verbatim>\<open>CS_scan_single\<close>: the mask, its reduction, the record
  in the helper array, \<^verbatim>\<open>seen_working |= reduce_cs(...)\<close>, one more tap of delay.
\<close>

definition CS_scan_tap :: "training_ctx \<Rightarrow> int \<Rightarrow> int \<Rightarrow> int \<Rightarrow> int \<Rightarrow> mach \<Rightarrow> fault + mach" where
  "CS_scan_tap ctx channel rank shift_0101 csdly m =
     (let (works, m) = cs_tap_mask ctx channel rank shift_0101 m
      in bindE (reduce_cs works (modules ctx)) (\<lambda>r.
         bindE (set_helper_arr_value_and_advance (word_of_int r) (printf (Tap r) m)) (\<lambda>m.
         Inr (inc_dly (CS_line channel rank 0)
                (m\<lparr>seen_working := (seen_working m \<or> r \<noteq> 0)\<rparr>)))))"

definition CS_scan_single :: "training_ctx \<Rightarrow> int \<Rightarrow> int \<Rightarrow> int \<Rightarrow> mach \<Rightarrow> fault + mach" where
  "CS_scan_single ctx channel rank shift_0101 m =
     bindE (for_loopE 0 (max_delay_taps ctx) (CS_scan_tap ctx channel rank shift_0101) m) (\<lambda>m.
     Inr (rst_dly (CS_line channel rank 0) m))"

text \<open>
  \<^verbatim>\<open>helper_modules_without_shift = 0; helper_modules_seen = 0;\<close>
\<close>

definition clear_modules :: "mach \<Rightarrow> mach" where
  "clear_modules m = m\<lparr>helper_modules_without_shift := 0, helper_modules_seen := 0\<rparr>"

text \<open>
  The condition of the polarity change in \<^verbatim>\<open>CS_scan\<close>, with the short circuit of
  \<^verbatim>\<open>&&\<close>: \<^verbatim>\<open>ctx->training_type == HOST_RCD && one_in_helper_arr(taps) == -1 &&
  one_stride_helper_arr(taps) < (taps/8)\<close>.
\<close>

definition cs_change_polarization :: "training_ctx \<Rightarrow> mach \<Rightarrow> fault + bool" where
  "cs_change_polarization ctx m =
     (if training_type ctx = HOST_RCD then
        bindE (one_in_helper_arr m (max_delay_taps ctx)) (\<lambda>one_in.
          if one_in = - 1 then
            bindE (one_stride_helper_arr m (max_delay_taps ctx)) (\<lambda>stride.
              Inr (stride < max_delay_taps ctx sdiv 8))
          else Inr False)
      else Inr False)"

text \<open>
  \<^verbatim>\<open>CS_scan\<close>. It writes \<^verbatim>\<open>ctx->cs.invert[channel]\<close>, so the context is part of the
  result, after \<open>subtract\<close>. Entering and leaving the training mode does not touch the
  modelled state. In the \<^verbatim>\<open>switch\<close>, case \<open>-1\<close> falls through into case \<open>1\<close>.
\<close>

definition CS_scan ::
  "training_ctx \<Rightarrow> int \<Rightarrow> int \<Rightarrow> mach \<Rightarrow> fault + (bool \<times> training_ctx \<times> mach)" where
  "CS_scan ctx channel rank m =
     (let shift = cs_invert ctx channel;
          m = clear_modules (clear_helper_arr m);
          m = m\<lparr>seen_working := False\<rparr>;
          m = rst_dly (CS_line channel rank 0) m
      in bindE (CS_scan_single ctx channel rank shift m) (\<lambda>m.
         bindE (cs_change_polarization ctx m) (\<lambda>change.
         bindE (if change
                then bindE (CS_scan_single (ctx\<lparr>cs_invert := (cs_invert ctx)(channel := 1)\<rparr>)
                              channel rank 1 (clear_modules (clear_helper_arr m))) (\<lambda>m.
                     Inr (1, ctx\<lparr>cs_invert := (cs_invert ctx)(channel := 1)\<rparr>, m))
                else Inr (shift, ctx, m)) (\<lambda>(shift, ctx, m).
         bindE (one_in_helper_arr m (max_delay_taps ctx)) (\<lambda>one_in.
           if one_in = - 1 then
             bindE (CS_scan_single ctx channel rank (lnot shift) (clear_helper_arr m)) (\<lambda>m.
             bindE (CS_scan_single ctx channel rank (lnot (lnot shift)) m) (\<lambda>m.
             Inr (True, ctx, m)))
           else if one_in = 1 then
             bindE (CS_scan_single ctx channel rank (lnot shift) m) (\<lambda>m.
             Inr (False, ctx, m))
           else if one_in = 0 then
             bindE (CS_scan_single ctx channel rank (lnot shift)
                      (clear_modules (clear_helper_arr m))) (\<lambda>m.
             bindE (CS_scan_single ctx channel rank shift m) (\<lambda>m.
             Inr (False, ctx, m)))
           else Inr (False, ctx, m))))))"

section \<open>Command/address scan and training (\<^verbatim>\<open>CA_scan\<close>, \<^verbatim>\<open>CA_training\<close>)\<close>

text \<open>Writing \<^verbatim>\<open>a[i][j][k] = v\<close> into a three-dimensional array.\<close>

definition upd3 :: "(int \<Rightarrow> int \<Rightarrow> int \<Rightarrow> int) \<Rightarrow> int \<Rightarrow> int \<Rightarrow> int \<Rightarrow> int \<Rightarrow> (int \<Rightarrow> int \<Rightarrow> int \<Rightarrow> int)" where
  "upd3 a i j k v = a(i := (a i)(j := (a i j)(k := v)))"

definition upd2 :: "(int \<Rightarrow> int \<Rightarrow> int) \<Rightarrow> int \<Rightarrow> int \<Rightarrow> int \<Rightarrow> (int \<Rightarrow> int \<Rightarrow> int)" where
  "upd2 a i j v = a(i := (a i)(j := v))"

text \<open>
  \<^verbatim>\<open>CA_setup_array\<close>:
  \<^verbatim>\<open>ctx->ca.delays[channel][address][0] = -ctx->max_delay_taps;
  ctx->ca.delays[channel][address][1] = ctx->max_delay_taps;\<close> for every channel and the
  14 address lines.
\<close>

definition CA_setup_array :: "training_ctx \<Rightarrow> training_ctx" where
  "CA_setup_array ctx =
     for_loop 0 (channels ctx) (\<lambda>channel.
       for_loop 0 14 (\<lambda>address ctx.
         (let ctx = ctx\<lparr>ca_delays := upd3 (ca_delays ctx) channel address 0 (- max_delay_taps ctx)\<rparr>
          in ctx\<lparr>ca_delays := upd3 (ca_delays ctx) channel address 1 (max_delay_taps ctx)\<rparr>))) ctx"

text \<open>
  One iteration of the loop of \<^verbatim>\<open>CA_scan_single\<close>. The \<^verbatim>\<open>int\<close> that
  \<^verbatim>\<open>ctx->ca.check\<close> returns is recorded as a \<^verbatim>\<open>uint32_t\<close>; the tap prints \<^verbatim>\<open>!!works\<close>.
\<close>

definition CA_scan_tap :: "training_ctx \<Rightarrow> int \<Rightarrow> int \<Rightarrow> int \<Rightarrow> int \<Rightarrow> int \<Rightarrow> mach \<Rightarrow> fault + mach" where
  "CA_scan_tap ctx channel rank address shift_back cadly m =
     (let works = ca_check ctx m channel rank address shift_back;
          m = probe m;
          m = printf (Tap (lnot (lnot works))) m
      in bindE (set_helper_arr_value_and_advance (word_of_int works) m) (\<lambda>m.
         Inr (inc_dly (CA_line channel rank address) m)))"

definition CA_scan_single :: "training_ctx \<Rightarrow> int \<Rightarrow> int \<Rightarrow> int \<Rightarrow> int \<Rightarrow> mach \<Rightarrow> fault + mach" where
  "CA_scan_single ctx channel rank address shift_back m =
     bindE (for_loopE 0 (max_delay_taps ctx) (CA_scan_tap ctx channel rank address shift_back)
              (rst_dly (CA_line channel rank address) m)) (\<lambda>m.
     Inr (rst_dly (CA_line channel rank address) m))"

definition CA_scan :: "training_ctx \<Rightarrow> int \<Rightarrow> int \<Rightarrow> int \<Rightarrow> mach \<Rightarrow> fault + mach" where
  "CA_scan ctx channel rank address m =
     (let m = clear_helper_arr m;
          m = rst_dly (CA_line channel rank address) m
      in bindE (CA_scan_single ctx channel rank address 1 m) (\<lambda>m.
         CA_scan_single ctx channel rank address 0 m))"

text \<open>
  The update of the envelope of one address line in \<^verbatim>\<open>CA_training\<close>:
  \<^verbatim>\<open>if (right_side > ctx->ca.delays[channel][address][0])
      ctx->ca.delays[channel][address][0] = right_side;
  if (left_side < ctx->ca.delays[channel][address][1])
      ctx->ca.delays[channel][address][1] = left_side;\<close>
\<close>

definition CA_training_window ::
  "training_ctx \<Rightarrow> int \<Rightarrow> int \<Rightarrow> int \<Rightarrow> int \<Rightarrow> training_ctx" where
  "CA_training_window ctx channel address right_side left_side =
     (let ctx = (if right_side > ca_delays ctx channel address 0
                 then ctx\<lparr>ca_delays := upd3 (ca_delays ctx) channel address 0 right_side\<rparr>
                 else ctx)
      in if left_side < ca_delays ctx channel address 1
         then ctx\<lparr>ca_delays := upd3 (ca_delays ctx) channel address 1 left_side\<rparr>
         else ctx)"

text \<open>
  The body of the address loop of \<^verbatim>\<open>CA_training\<close>: scan the line, extract the window;
  without a window report the failure (the caller then sets \<^verbatim>\<open>*success = 0\<close> and
  returns), otherwise subtract one period from both edges, print the window and update
  the envelope. The first component of the result tells whether a window was found.
\<close>

definition CA_training_line ::
  "training_ctx \<Rightarrow> int \<Rightarrow> int \<Rightarrow> int \<Rightarrow> mach \<Rightarrow> fault + (bool \<times> training_ctx \<times> mach)" where
  "CA_training_line ctx channel rank address m =
     bindE (CA_scan ctx channel rank address m) (\<lambda>m.
     bindE (find_eye_in_helper_arr m UNSET_DELAY UNSET_DELAY (max_delay_taps ctx))
       (\<lambda>(left_side, right_side).
         if left_side = UNSET_DELAY \<or> right_side = UNSET_DELAY
         then Inr (False, ctx, printf (CA_failed address) m)
         else
           (let right_side = right_side - max_delay_taps ctx;
                left_side = left_side - max_delay_taps ctx;
                m = printf (CA_window address right_side left_side) m
            in Inr (True, CA_training_window ctx channel address right_side left_side, m))))"

text \<open>
  The address loop \<^verbatim>\<open>for (address = 0; address < ctx->ca.line_count; address++)\<close>,
  with its bound \<open>n\<close> (the loop writes \<^verbatim>\<open>ctx->ca.delays\<close> only). The first component
  of the result is false when the function returned from inside the loop.
\<close>

function CA_training_address_loop ::
  "training_ctx \<Rightarrow> int \<Rightarrow> int \<Rightarrow> int \<Rightarrow> int \<Rightarrow> mach \<Rightarrow> fault + (bool \<times> training_ctx \<times> mach)" where
  "CA_training_address_loop ctx channel rank n address m =
     (if address < n then
        (case CA_training_line ctx channel rank address m of
           Inl e \<Rightarrow> Inl e
         | Inr (found, ctx', m') \<Rightarrow>
             if \<not> found then Inr (False, ctx', m')
             else CA_training_address_loop ctx' channel rank n (address + 1) m')
      else Inr (True, ctx, m))"
  by pat_completeness auto
termination
  by (relation "measure (\<lambda>(ctx, channel, rank, n, address, m). nat (n - address))") auto

declare CA_training_address_loop.simps [simp del]

text \<open>The rank loop \<^verbatim>\<open>for (; _rank < _max_rank; ++_rank)\<close>.\<close>

function CA_training_rank_loop ::
  "training_ctx \<Rightarrow> int \<Rightarrow> int \<Rightarrow> int \<Rightarrow> mach \<Rightarrow> fault + (bool \<times> training_ctx \<times> mach)" where
  "CA_training_rank_loop ctx channel max_rank rank m =
     (if rank < max_rank then
        (case CA_training_address_loop ctx channel rank (ca_line_count ctx) 0 m of
           Inl e \<Rightarrow> Inl e
         | Inr (completed, ctx', m') \<Rightarrow>
             if \<not> completed then Inr (False, ctx', m')
             else CA_training_rank_loop ctx' channel max_rank (rank + 1) m')
      else Inr (True, ctx, m))"
  by pat_completeness auto
termination
  by (relation "measure (\<lambda>(ctx, channel, max_rank, rank, m). nat (max_rank - rank))") auto

declare CA_training_rank_loop.simps [simp del]

text \<open>
  The number of ranks \<^verbatim>\<open>CA_training\<close> goes through: \<^verbatim>\<open>_max_rank = ctx->ranks;
  if (ctx->training_type == HOST_RCD) _max_rank = 1;\<close>
\<close>

definition CA_max_rank :: "training_ctx \<Rightarrow> int" where
  "CA_max_rank ctx = (if training_type ctx = HOST_RCD then 1 else ranks ctx)"

text \<open>
  \<^verbatim>\<open>CA_training\<close>. The \<^verbatim>\<open>uint8_t *success\<close> is an argument and the first component of
  the result: it is written, with 0, only when a line has no window.
\<close>

definition CA_training ::
  "training_ctx \<Rightarrow> int \<Rightarrow> int \<Rightarrow> mach \<Rightarrow> fault + (int \<times> training_ctx \<times> mach)" where
  "CA_training ctx channel success m =
     (case CA_training_rank_loop ctx channel (CA_max_rank ctx) 0 m of
        Inl e \<Rightarrow> Inl e
      | Inr (completed, ctx', m') \<Rightarrow> Inr (if completed then success else 0, ctx', m'))"

text \<open>
  What \<^verbatim>\<open>CA_training\<close> does on each line when nothing stops it, for the statement of what
  it stores. A pass is the treatment of one address line for one rank: the rank and the
  line, the pair \<open>(left, right)\<close> that \<^verbatim>\<open>find_eye_in_helper_arr\<close> gave for it, and the
  machine after the verdict on the line has been printed.
\<close>

record ca_pass =
  pass_rank :: int
  pass_address :: int
  pass_left :: int
  pass_right :: int
  pass_end :: mach

text \<open>
  The lines in the order of the loops of \<^verbatim>\<open>CA_training\<close>, as pairs of rank and address
  line: every line below \<^verbatim>\<open>ca.line_count\<close> for every rank below \<^verbatim>\<open>_max_rank\<close>.
\<close>

definition CA_lines :: "training_ctx \<Rightarrow> (int \<times> int) list" where
  "CA_lines ctx =
     concat (map (\<lambda>rank. map (Pair rank) [0..ca_line_count ctx - 1]) [0..CA_max_rank ctx - 1])"

text \<open>
  The test of \<^verbatim>\<open>CA_training\<close> for a window:
  \<^verbatim>\<open>if (left_side == UNSET_DELAY || right_side == UNSET_DELAY)\<close> reports the failure.
\<close>

definition has_window :: "ca_pass \<Rightarrow> bool" where
  "has_window p = (\<not> (pass_left p = UNSET_DELAY \<or> pass_right p = UNSET_DELAY))"

text \<open>
  The passes over a list of lines, each made as the body of the address loop makes it
  (\<^verbatim>\<open>CA_scan\<close>, \<^verbatim>\<open>find_eye_in_helper_arr\<close> with both sides unset, the report of the
  failure or of the window with one period off both edges), one after the other on the
  machine the one before left, with no \<^verbatim>\<open>return\<close> in between. The scans read the context
  only for the check and the tap count, so the envelope has no part in them.
\<close>

fun CA_passes ::
  "training_ctx \<Rightarrow> int \<Rightarrow> (int \<times> int) list \<Rightarrow> mach \<Rightarrow> fault + ca_pass list" where
  "CA_passes ctx channel [] m = Inr []"
| "CA_passes ctx channel ((rank, address) # lines) m =
     bindE (CA_scan ctx channel rank address m) (\<lambda>m.
     bindE (find_eye_in_helper_arr m UNSET_DELAY UNSET_DELAY (max_delay_taps ctx))
       (\<lambda>(left_side, right_side).
         (let m = (if left_side = UNSET_DELAY \<or> right_side = UNSET_DELAY
                   then printf (CA_failed address) m
                   else printf (CA_window address (right_side - max_delay_taps ctx)
                                  (left_side - max_delay_taps ctx)) m)
          in bindE (CA_passes ctx channel lines m) (\<lambda>ps.
             Inr (\<lparr>pass_rank = rank, pass_address = address, pass_left = left_side,
                    pass_right = right_side, pass_end = m\<rparr> # ps)))))"

text \<open>The machine after the last of the passes.\<close>

definition passes_end :: "mach \<Rightarrow> ca_pass list \<Rightarrow> mach" where
  "passes_end m ps = (if ps = [] then m else pass_end (last ps))"

text \<open>
  The right and the left edges that the passes over the line \<open>a\<close> found, with one period
  (\<open>max_delay_taps\<close>) taken off.
\<close>

definition right_edges :: "training_ctx \<Rightarrow> int \<Rightarrow> ca_pass list \<Rightarrow> int set" where
  "right_edges ctx a ps =
     (\<lambda>p. pass_right p - max_delay_taps ctx) ` {p \<in> set ps. pass_address p = a}"

definition left_edges :: "training_ctx \<Rightarrow> int \<Rightarrow> ca_pass list \<Rightarrow> int set" where
  "left_edges ctx a ps =
     (\<lambda>p. pass_left p - max_delay_taps ctx) ` {p \<in> set ps. pass_address p = a}"

text \<open>
  The context \<open>ctx\<close> with the envelope of every address line of \<open>channel\<close> aggregated
  over the passes \<open>ps\<close>: the right edge becomes the maximum of the stored right edge and
  the normalized right edges of the line, the left edge the minimum of the stored left
  edge and its normalized left edges. This follows the words of the spec; the properties
  below compare \<^const>\<open>CA_training\<close> with it.
\<close>

definition CA_envelope_delays ::
  "training_ctx \<Rightarrow> int \<Rightarrow> ca_pass list \<Rightarrow> int \<Rightarrow> int \<Rightarrow> int \<Rightarrow> int" where
  "CA_envelope_delays ctx channel ps ch a k =
     (if ch = channel \<and> k = 0
      then Max (insert (ca_delays ctx ch a 0) (right_edges ctx a ps))
      else if ch = channel \<and> k = 1
      then Min (insert (ca_delays ctx ch a 1) (left_edges ctx a ps))
      else ca_delays ctx ch a k)"

definition CA_envelope :: "training_ctx \<Rightarrow> int \<Rightarrow> ca_pass list \<Rightarrow> training_ctx" where
  "CA_envelope ctx channel ps = ctx\<lparr>ca_delays := CA_envelope_delays ctx channel ps\<rparr>"

text \<open>
  What the loops of \<^verbatim>\<open>CA_training\<close> come to on a sequence of passes: whether every pass
  has a window, the envelope over the passes before the first one without, and the
  machine that one left (the machine after the last pass when there is none).
\<close>

definition CA_outcome ::
  "training_ctx \<Rightarrow> int \<Rightarrow> mach \<Rightarrow> ca_pass list \<Rightarrow> bool \<times> training_ctx \<times> mach" where
  "CA_outcome ctx channel m ps =
     (list_all has_window ps,
      CA_envelope ctx channel (takeWhile has_window ps),
      case dropWhile has_window ps of [] \<Rightarrow> passes_end m ps | p # _ \<Rightarrow> pass_end p)"

text \<open>
  A context with two ranks, one address line and one tap, whose line answers in the
  sweep without shift-back and, for rank 1, in both sweeps.
\<close>

definition one_tap_ctx :: training_ctx where
  "one_tap_ctx =
     sample_ctx\<lparr>ranks := 2, max_delay_taps := 1,
       ca_check := (\<lambda>m channel rank address shift_back.
          if shift_back = 0 \<or> rank = 1 then 1 else 0)\<rparr>"

section \<open>Clock finalization (\<^verbatim>\<open>CK_CS_CA_finalize_timings\<close>)\<close>

text \<open>
  The channels that a function called with \<open>channel\<close> goes through, as the bounds of
  its loop: \<^verbatim>\<open>_channel = channel; _max_channel = channel + 1;
  if (channel == -1) { _channel = 0; _max_channel = ctx->channels; }\<close>
\<close>

definition channel_scope :: "training_ctx \<Rightarrow> int \<Rightarrow> int \<times> int" where
  "channel_scope ctx channel =
     (if channel = - 1 then (0, channels ctx) else (channel, channel + 1))"

text \<open>
  The two loop bodies of \<^verbatim>\<open>CS_CA_calculate_midpoints\<close>, on the context and the running
  \<^verbatim>\<open>*min\<close> and \<^verbatim>\<open>*max\<close>:
  \<^verbatim>\<open>temp = (ctx->cs.delays[_channel][_rank][0] + ctx->cs.delays[_channel][_rank][1])/2;
  ctx->cs.final_delays[_channel][_rank] = temp;
  *min = MIN(*min, temp); *max = MAX(*max, temp);\<close>
  and the same for an address line. The division of two \<^verbatim>\<open>int\<close> truncates. The
  printouts of the timings are left out.
\<close>

definition midpoint_rank ::
  "int \<Rightarrow> int \<Rightarrow> training_ctx \<times> int \<times> int \<Rightarrow> training_ctx \<times> int \<times> int" where
  "midpoint_rank channel rank s =
     (let (ctx, mn, mx) = s;
          temp = (cs_delays ctx channel rank 0 + cs_delays ctx channel rank 1) sdiv 2;
          ctx = ctx\<lparr>cs_final_delays := upd2 (cs_final_delays ctx) channel rank temp\<rparr>
      in (ctx, min mn temp, max mx temp))"

definition midpoint_line ::
  "int \<Rightarrow> int \<Rightarrow> training_ctx \<times> int \<times> int \<Rightarrow> training_ctx \<times> int \<times> int" where
  "midpoint_line channel address s =
     (let (ctx, mn, mx) = s;
          temp = (ca_delays ctx channel address 0 + ca_delays ctx channel address 1) sdiv 2;
          ctx = ctx\<lparr>ca_final_delays := upd2 (ca_final_delays ctx) channel address temp\<rparr>
      in (ctx, min mn temp, max mx temp))"

text \<open>
  \<^verbatim>\<open>CS_CA_calculate_midpoints(ctx, &min, &max, channel)\<close>: the result is the context with
  \<^verbatim>\<open>*min\<close> and \<^verbatim>\<open>*max\<close> on return. The loops write the final delays only, so their
  bounds \<^verbatim>\<open>ctx->ranks\<close> and \<^verbatim>\<open>ctx->ca.line_count\<close> stay as they are.
\<close>

definition CS_CA_calculate_midpoints ::
  "training_ctx \<Rightarrow> int \<Rightarrow> int \<Rightarrow> int \<Rightarrow> training_ctx \<times> int \<times> int" where
  "CS_CA_calculate_midpoints ctx mn mx channel =
     (let (lo, hi) = channel_scope ctx channel
      in for_loop lo hi (\<lambda>ch s.
           (let s = for_loop 0 (ranks (fst s)) (midpoint_rank ch) s
            in for_loop 0 (ca_line_count (fst s)) (midpoint_line ch) s)) (ctx, mn, mx))"

text \<open>
  The two loop bodies of \<^verbatim>\<open>CS_CA_set_adjusted_delays\<close>:
  \<^verbatim>\<open>ctx->cs.final_delays[_channel][_rank] -= ck_offset;
  ctx->cs.rst_dly(_channel, _rank, 0);
  for (cntdly = 0; cntdly < ctx->cs.final_delays[_channel][_rank]; ++cntdly)
      ctx->cs.inc_dly(_channel, _rank, 0);\<close>
  and, for an address line, the same on \<^verbatim>\<open>ctx->ca.final_delays[_channel][address]\<close> with
  \<^verbatim>\<open>ctx->ca.rst_dly(_channel, 0, address)\<close> and \<^verbatim>\<open>ctx->ca.inc_dly(_channel, 0, address)\<close>.
\<close>

definition adjust_rank ::
  "int \<Rightarrow> int \<Rightarrow> int \<Rightarrow> training_ctx \<times> mach \<Rightarrow> training_ctx \<times> mach" where
  "adjust_rank ck_offset channel rank s =
     (let (ctx, m) = s;
          ctx = ctx\<lparr>cs_final_delays :=
                   upd2 (cs_final_delays ctx) channel rank
                     (cs_final_delays ctx channel rank - ck_offset)\<rparr>
      in (ctx, set_dly (CS_line channel rank 0) (cs_final_delays ctx channel rank) m))"

definition adjust_line ::
  "int \<Rightarrow> int \<Rightarrow> int \<Rightarrow> training_ctx \<times> mach \<Rightarrow> training_ctx \<times> mach" where
  "adjust_line ck_offset channel address s =
     (let (ctx, m) = s;
          ctx = ctx\<lparr>ca_final_delays :=
                   upd2 (ca_final_delays ctx) channel address
                     (ca_final_delays ctx channel address - ck_offset)\<rparr>
      in (ctx, set_dly (CA_line channel 0 address) (ca_final_delays ctx channel address) m))"

definition CS_CA_set_adjusted_delays ::
  "training_ctx \<Rightarrow> int \<Rightarrow> int \<Rightarrow> mach \<Rightarrow> training_ctx \<times> mach" where
  "CS_CA_set_adjusted_delays ctx ck_offset channel m =
     (let (lo, hi) = channel_scope ctx channel
      in for_loop lo hi (\<lambda>ch s.
           (let s = for_loop 0 (ranks (fst s)) (adjust_rank ck_offset ch) s
            in for_loop 0 (ca_line_count (fst s)) (adjust_line ck_offset ch) s)) (ctx, m))"

text \<open>
  \<^verbatim>\<open>CS_CA_rescan\<close>. For every rank: \<^verbatim>\<open>CS_scan\<close>, then the chip-select line is programmed
  back to its final delay. Then for every rank, except rank 1 when the RCD is trained
  (\<^verbatim>\<open>continue\<close>), and every address line: \<^verbatim>\<open>CA_scan\<close>, then the line is programmed back
  to its final delay. \<^verbatim>\<open>CS_scan\<close> writes \<^verbatim>\<open>ctx->cs.invert\<close>, so the context is part
  of the state. The parameter \<^verbatim>\<open>ckdly\<close> is not used by the function.
\<close>

definition rescan_rank_cs :: "int \<Rightarrow> int \<Rightarrow> training_ctx \<times> mach \<Rightarrow> fault + training_ctx \<times> mach" where
  "rescan_rank_cs channel rank s =
     (let (ctx, m) = s
      in bindE (CS_scan ctx channel rank m) (\<lambda>(sub, ctx, m).
         Inr (ctx, set_dly (CS_line channel rank 0) (cs_final_delays ctx channel rank) m)))"

definition rescan_line ::
  "int \<Rightarrow> int \<Rightarrow> int \<Rightarrow> training_ctx \<times> mach \<Rightarrow> fault + training_ctx \<times> mach" where
  "rescan_line channel rank address s =
     (let (ctx, m) = s
      in bindE (CA_scan ctx channel rank address m) (\<lambda>m.
         Inr (ctx, set_dly (CA_line channel rank address) (ca_final_delays ctx channel address) m)))"

definition rescan_rank_ca :: "int \<Rightarrow> int \<Rightarrow> training_ctx \<times> mach \<Rightarrow> fault + training_ctx \<times> mach" where
  "rescan_rank_ca channel rank s =
     (if training_type (fst s) = HOST_RCD \<and> rank = 1 then Inr s
      else for_loopE 0 (ca_line_count (fst s)) (rescan_line channel rank) s)"

definition CS_CA_rescan ::
  "training_ctx \<Rightarrow> int \<Rightarrow> int \<Rightarrow> mach \<Rightarrow> fault + training_ctx \<times> mach" where
  "CS_CA_rescan ctx ckdly channel m =
     (let (lo, hi) = channel_scope ctx channel
      in for_loopE lo hi (\<lambda>ch s.
           bindE (for_loopE 0 (ranks (fst s)) (rescan_rank_cs ch) s) (\<lambda>s.
           for_loopE 0 (ranks (fst s)) (rescan_rank_ca ch) s)) (ctx, m))"

text \<open>The remainder \<^verbatim>\<open>a % b\<close> of two \<^verbatim>\<open>int\<close>: undefined for \<open>b = 0\<close>.\<close>

definition c_rem :: "int \<Rightarrow> int \<Rightarrow> fault + int" where
  "c_rem a b = (if b = 0 then Inl DivisionByZero else Inr (a smod b))"

text \<open>
  \<^verbatim>\<open>CK_CS_CA_finalize_timings\<close>:
  \<^verbatim>\<open>min = ctx->max_delay_taps; max = -ctx->max_delay_taps;
  CS_CA_calculate_midpoints(ctx, &min, &max, channel);
  new_ckdly = (ctx->max_delay_taps - min) % ctx->max_delay_taps;
  ctx->ck.rst_dly(channel, 0, 0);
  for (cntdly = 0; cntdly < new_ckdly; ++cntdly) ctx->ck.inc_dly(channel, 0, 0);
  CS_CA_set_adjusted_delays(ctx, min, channel);
  CS_CA_rescan(ctx, new_ckdly, channel);\<close>
  The clock line is addressed with the \<open>channel\<close> the function was called with.
\<close>

definition CK_CS_CA_finalize_timings ::
  "training_ctx \<Rightarrow> int \<Rightarrow> mach \<Rightarrow> fault + training_ctx \<times> mach" where
  "CK_CS_CA_finalize_timings ctx channel m =
     (let (ctx, mn, mx) =
            CS_CA_calculate_midpoints ctx (max_delay_taps ctx) (- max_delay_taps ctx) channel
      in bindE (c_rem (max_delay_taps ctx - mn) (max_delay_taps ctx)) (\<lambda>new_ckdly.
         (let m = set_dly (CK_line channel 0 0) new_ckdly m;
              (ctx, m) = CS_CA_set_adjusted_delays ctx mn channel m
          in CS_CA_rescan ctx new_ckdly channel m)))"

text \<open>
  The midpoint \<open>(right + left) / 2\<close> of the eye of a chip-select rank and of an address
  line, and the midpoints of all signals that a call with \<open>channel\<close> covers: for each
  channel the ranks, then the address lines. The final delays of the same signals, in
  the same order. These follow the words of the spec.
\<close>

definition cs_midpoint :: "training_ctx \<Rightarrow> int \<Rightarrow> int \<Rightarrow> int" where
  "cs_midpoint ctx channel rank = (cs_delays ctx channel rank 0 + cs_delays ctx channel rank 1) sdiv 2"

definition ca_midpoint :: "training_ctx \<Rightarrow> int \<Rightarrow> int \<Rightarrow> int" where
  "ca_midpoint ctx channel address =
     (ca_delays ctx channel address 0 + ca_delays ctx channel address 1) sdiv 2"

definition signals_of ::
  "training_ctx \<Rightarrow> int \<Rightarrow> (int \<Rightarrow> int \<Rightarrow> int) \<Rightarrow> (int \<Rightarrow> int \<Rightarrow> int) \<Rightarrow> int list" where
  "signals_of ctx channel cs ca =
     concat (map (\<lambda>ch. map (cs ch) [0..ranks ctx - 1] @ map (ca ch) [0..ca_line_count ctx - 1])
               [fst (channel_scope ctx channel)..snd (channel_scope ctx channel) - 1])"

definition trained_midpoints :: "training_ctx \<Rightarrow> int \<Rightarrow> int list" where
  "trained_midpoints ctx channel = signals_of ctx channel (cs_midpoint ctx) (ca_midpoint ctx)"

definition final_delays :: "training_ctx \<Rightarrow> int \<Rightarrow> int list" where
  "final_delays ctx channel = signals_of ctx channel (cs_final_delays ctx) (ca_final_delays ctx)"

text \<open>
  A context after a training of one rank and one address line with four taps: a
  chip-select eye from 1 to 3 and an address-line eye from \<open>-3\<close> to 1.
\<close>

definition trained_ctx :: training_ctx where
  "trained_ctx =
     sample_ctx\<lparr>cs_delays := (\<lambda>_ _ k. if k = 0 then 1 else 3),
                ca_delays := (\<lambda>_ _ k. if k = 0 then - 3 else 1)\<rparr>"

section \<open>Index ranges\<close>

lemma upto_step: "i < n \<Longrightarrow> [i..n - 1] = i # [i + 1..n - 1]"
  by (subst upto_rec1) simp_all

lemma upto_none: "\<not> i < n \<Longrightarrow> [i..n - 1] = []"
  by simp

section \<open>Properties of the eye scanner\<close>

lemma rd_in_range: "0 \<le> i \<Longrightarrow> i < int (length a) \<Longrightarrow> rd a i = Inr (a ! nat i)"
  by (simp add: rd_def)

lemma one_in_loop_spec:
  "1 \<le> it \<Longrightarrow> mx \<le> int (length a) \<Longrightarrow>
   one_in_loop a mx it = Inr (if \<exists>k. it \<le> k \<and> k < mx \<and> a ! nat k \<noteq> 0 then 1 else 0)"
proof (induction a mx it rule: one_in_loop.induct)
  case (1 a mx it)
  show ?case
  proof (cases "it < mx")
    case False
    then show ?thesis by (subst one_in_loop.simps) auto
  next
    case True
    with "1.prems" have r: "rd a it = Inr (a ! nat it)" by (simp add: rd_in_range)
    show ?thesis
    proof (cases "a ! nat it = 0")
      case False
      with True r show ?thesis by (subst one_in_loop.simps) auto
    next
      case z: True
      have ih: "one_in_loop a mx (it + 1) =
          Inr (if \<exists>k. it + 1 \<le> k \<and> k < mx \<and> a ! nat k \<noteq> 0 then 1 else 0)"
        using "1.IH" [OF True r] z "1.prems" by simp
      have "(\<exists>k. it \<le> k \<and> k < mx \<and> a ! nat k \<noteq> 0) = (\<exists>k. it + 1 \<le> k \<and> k < mx \<and> a ! nat k \<noteq> 0)"
      proof
        assume "\<exists>k. it \<le> k \<and> k < mx \<and> a ! nat k \<noteq> 0"
        then obtain k where k: "it \<le> k" "k < mx" "a ! nat k \<noteq> 0" by blast
        with z have "k \<noteq> it" by auto
        with k have "it + 1 \<le> k \<and> k < mx \<and> a ! nat k \<noteq> 0" by simp
        then show "\<exists>k. it + 1 \<le> k \<and> k < mx \<and> a ! nat k \<noteq> 0" ..
      next
        assume "\<exists>k. it + 1 \<le> k \<and> k < mx \<and> a ! nat k \<noteq> 0"
        then obtain k where "it + 1 \<le> k" "k < mx" "a ! nat k \<noteq> 0" by blast
        then have "it \<le> k \<and> k < mx \<and> a ! nat k \<noteq> 0" by simp
        then show "\<exists>k. it \<le> k \<and> k < mx \<and> a ! nat k \<noteq> 0" ..
      qed
      with ih True r z show ?thesis by (subst one_in_loop.simps) simp
    qed
  qed
qed

text \<open>
  C4. For every helper array and every \<open>max \<ge> 1\<close> within it, \<^verbatim>\<open>one_in_helper_arr\<close>
  returns \<open>-1\<close> if the sample at index 0 is non-zero, \<open>1\<close> if the sample at index 0 is zero
  and some sample at an index in \<open>[1, max)\<close> is non-zero, and \<open>0\<close> otherwise: a three-way
  result in which a true sample at index 0 takes precedence over any other true sample.
\<close>

theorem one_in_helper_arr_three_way:
  assumes "1 \<le> mx" and "mx \<le> int (length (helper_arr m))"
  shows "one_in_helper_arr m mx =
           Inr (if helper_arr m ! 0 \<noteq> 0 then - 1
                else if \<exists>k. 1 \<le> k \<and> k < mx \<and> helper_arr m ! nat k \<noteq> 0 then 1
                else 0)"
proof -
  from assms have "0 < int (length (helper_arr m))" by linarith
  then have "rd (helper_arr m) 0 = Inr (helper_arr m ! 0)"
    by (simp add: rd_def)
  then show ?thesis
    using one_in_loop_spec [of 1 mx "helper_arr m"] assms
    by (simp add: one_in_helper_arr_def)
qed


theorem one_in_helper_arr_three_way_witness:
  "one_in_helper_arr (mach_init [0, 0, 1, 0]) 4 = Inr 1
   \<and> one_in_helper_arr (mach_init [1, 0, 1, 0]) 4 = Inr (- 1)
   \<and> one_in_helper_arr (mach_init [0, 0, 0, 0, 1]) 4 = Inr 0"
proof -
  have e: "\<exists>k. 1 \<le> k \<and> k < 4 \<and> helper_arr (mach_init [0, 0, 1, 0]) ! nat k \<noteq> 0"
    by (rule exI [of _ 2]) (simp add: mach_init_def)
  have n: "\<not> (\<exists>k. 1 \<le> k \<and> k < 4 \<and> helper_arr (mach_init [0, 0, 0, 0, 1]) ! nat k \<noteq> 0)"
  proof
    assume "\<exists>k. 1 \<le> k \<and> k < 4 \<and> helper_arr (mach_init [0, 0, 0, 0, 1]) ! nat k \<noteq> 0"
    then obtain k :: int where k: "1 \<le> k" "k < 4"
      and nz: "helper_arr (mach_init [0, 0, 0, 0, 1]) ! nat k \<noteq> 0" by blast
    from k have "k = 1 \<or> k = 2 \<or> k = 3" by linarith
    with nz show False by (auto simp: mach_init_def)
  qed
  have a: "one_in_helper_arr (mach_init [0, 0, 1, 0]) 4 = Inr 1"
    using one_in_helper_arr_three_way [of 4 "mach_init [0, 0, 1, 0]"] e
    by (simp add: mach_init_def)
  have b: "one_in_helper_arr (mach_init [1, 0, 1, 0]) 4 = Inr (- 1)"
    using one_in_helper_arr_three_way [of 4 "mach_init [1, 0, 1, 0]"]
    by (simp add: mach_init_def)
  have c: "one_in_helper_arr (mach_init [0, 0, 0, 0, 1]) 4 = Inr 0"
    using one_in_helper_arr_three_way [of 4 "mach_init [0, 0, 0, 0, 1]"] n
    by (simp add: mach_init_def)
  from a b c show ?thesis by simp
qed

lemma find_eye_loop_skip_zero:
  "0 \<le> it \<Longrightarrow> it \<le> j \<Longrightarrow> j \<le> 2 * mx \<Longrightarrow> j \<le> int (length a) \<Longrightarrow> samples_zero a it j \<Longrightarrow>
   find_eye_loop a mx it l UNSET_DELAY = find_eye_loop a mx j l UNSET_DELAY"
proof (induction n \<equiv> "nat (j - it)" arbitrary: it)
  case 0
  then show ?case by simp
next
  case (Suc n)
  then have lt: "it < j" by linarith
  with Suc.prems have z: "a ! nat it = 0" by (simp add: samples_zero_def)
  from lt Suc.prems have r: "rd a it = Inr (a ! nat it)" by (simp add: rd_in_range)
  have sz: "samples_zero a (it + 1) j"
    using Suc.prems by (simp add: samples_zero_def)
  have "find_eye_loop a mx it l UNSET_DELAY = find_eye_loop a mx (it + 1) l UNSET_DELAY"
    using lt Suc.prems r z by (subst find_eye_loop.simps) simp
  also have "\<dots> = find_eye_loop a mx j l UNSET_DELAY"
    using Suc.hyps(1) [of "it + 1"] Suc.hyps(2) Suc.prems lt sz by simp
  finally show ?case .
qed

lemma find_eye_loop_skip_nonzero:
  "0 \<le> it \<Longrightarrow> it \<le> j \<Longrightarrow> j \<le> 2 * mx \<Longrightarrow> j \<le> int (length a) \<Longrightarrow> samples_nonzero a it j \<Longrightarrow>
   r \<noteq> UNSET_DELAY \<Longrightarrow> find_eye_loop a mx it l r = find_eye_loop a mx j l r"
proof (induction n \<equiv> "nat (j - it)" arbitrary: it)
  case 0
  then show ?case by simp
next
  case (Suc n)
  then have lt: "it < j" by linarith
  with Suc.prems have z: "a ! nat it \<noteq> 0" by (simp add: samples_nonzero_def)
  from lt Suc.prems have rr: "rd a it = Inr (a ! nat it)" by (simp add: rd_in_range)
  have sz: "samples_nonzero a (it + 1) j"
    using Suc.prems by (simp add: samples_nonzero_def)
  have "find_eye_loop a mx it l r = find_eye_loop a mx (it + 1) l r"
    using lt Suc.prems rr z by (subst find_eye_loop.simps) simp
  also have "\<dots> = find_eye_loop a mx j l r"
    using Suc.hyps(1) [of "it + 1"] Suc.hyps(2) Suc.prems lt sz by simp
  finally show ?case .
qed

lemma find_eye_loop_first_nonzero:
  "0 \<le> it \<Longrightarrow> it < 2 * mx \<Longrightarrow> it < int (length a) \<Longrightarrow> a ! nat it \<noteq> 0 \<Longrightarrow>
   find_eye_loop a mx it l UNSET_DELAY = find_eye_loop a mx (it + 1) l it"
  by (subst find_eye_loop.simps) (simp add: rd_in_range)

lemma find_eye_loop_closing:
  "0 \<le> it \<Longrightarrow> it < 2 * mx \<Longrightarrow> it < int (length a) \<Longrightarrow> a ! nat it = 0 \<Longrightarrow> r \<noteq> UNSET_DELAY \<Longrightarrow>
   find_eye_loop a mx it l r = Inr (True, it, r)"
  by (subst find_eye_loop.simps) (simp add: rd_in_range)

lemma find_eye_loop_end: "find_eye_loop a mx (2 * mx) l r = Inr (False, l, r)"
  by (subst find_eye_loop.simps) simp

lemma find_eye_all_zero:
  assumes "1 \<le> mx" and "2 * mx \<le> int (length (helper_arr m))"
    and "samples_zero (helper_arr m) 0 (2 * mx)"
  shows "find_eye_in_helper_arr m UNSET_DELAY UNSET_DELAY mx = Inr (UNSET_DELAY, UNSET_DELAY)"
proof -
  have "find_eye_loop (helper_arr m) mx 0 UNSET_DELAY UNSET_DELAY = Inr (False, UNSET_DELAY, UNSET_DELAY)"
    using find_eye_loop_skip_zero [of 0 "2 * mx" mx "helper_arr m" UNSET_DELAY] assms
    by (simp add: find_eye_loop_end)
  moreover have "helper_arr m ! nat (2 * mx - 1) = 0"
    using assms by (simp add: samples_zero_def)
  moreover have "rd (helper_arr m) (2 * mx - 1) = Inr (helper_arr m ! nat (2 * mx - 1))"
    using assms by (simp add: rd_in_range)
  ultimately show ?thesis by (simp add: find_eye_in_helper_arr_def)
qed

lemma find_eye_window:
  assumes "1 \<le> mx" and "2 * mx \<le> int (length (helper_arr m))" and "r \<noteq> UNSET_DELAY"
    and "0 \<le> r" and "r < l" and "l \<le> 2 * mx"
    and "samples_zero (helper_arr m) 0 r" and "samples_nonzero (helper_arr m) r l"
    and "l < 2 * mx \<longrightarrow> helper_arr m ! nat l = 0"
  shows "find_eye_in_helper_arr m UNSET_DELAY UNSET_DELAY mx = Inr (l, r)"
proof -
  let ?a = "helper_arr m"
  have ru: "r \<noteq> UNSET_DELAY" by (rule assms(3))
  have nz: "?a ! nat r \<noteq> 0" using assms by (simp add: samples_nonzero_def)
  have "find_eye_loop ?a mx 0 UNSET_DELAY UNSET_DELAY = find_eye_loop ?a mx r UNSET_DELAY UNSET_DELAY"
    using find_eye_loop_skip_zero [of 0 r mx ?a UNSET_DELAY] assms by simp
  also have "\<dots> = find_eye_loop ?a mx (r + 1) UNSET_DELAY r"
    using find_eye_loop_first_nonzero [of r mx ?a UNSET_DELAY] assms nz by simp
  also have "\<dots> = find_eye_loop ?a mx l UNSET_DELAY r"
    using find_eye_loop_skip_nonzero [of "r + 1" l mx ?a r UNSET_DELAY] assms ru
    by (simp add: samples_nonzero_def)
  finally have loop: "find_eye_loop ?a mx 0 UNSET_DELAY UNSET_DELAY = find_eye_loop ?a mx l UNSET_DELAY r" .
  show ?thesis
  proof (cases "l < 2 * mx")
    case True
    with assms ru have "find_eye_loop ?a mx l UNSET_DELAY r = Inr (True, l, r)"
      by (intro find_eye_loop_closing) simp_all
    with loop show ?thesis by (simp add: find_eye_in_helper_arr_def)
  next
    case False
    with assms have l: "l = 2 * mx" by simp
    have "?a ! nat (2 * mx - 1) \<noteq> 0"
      using assms l by (simp add: samples_nonzero_def)
    moreover have "rd ?a (2 * mx - 1) = Inr (?a ! nat (2 * mx - 1))"
      using assms by (simp add: rd_in_range)
    ultimately show ?thesis
      using loop l by (simp add: find_eye_in_helper_arr_def find_eye_loop_end)
  qed
qed

text \<open>
  What \<^verbatim>\<open>find_eye_in_helper_arr\<close> does off its sentinel. The function compares
  \<^verbatim>\<open>*right\<close> with \<^const>\<open>UNSET_DELAY\<close> to know whether a true sample has been seen. For
  every helper array and every \<open>max \<ge> 1\<close> with \<open>2 * max\<close> within the array, called with
  both outputs unset: on an all-false buffer both outputs stay unset; when the first true
  sample sits at an index \<open>r\<close> other than \<open>0xefff\<close>, \<open>right\<close> is \<open>r\<close> and \<open>left\<close> is the
  index of the first false sample after \<open>r\<close>, or \<open>2 * max\<close> when the run of true samples
  reaches the end of the scan; on an all-true buffer the result is \<open>right = 0\<close>,
  \<open>left = 2 * max\<close>; and for a buffer whose only true samples form one run of length \<open>L\<close>
  starting at \<open>S\<close>, with \<open>0 < S\<close> and \<open>S + L < max\<close>, the result is \<open>right = S\<close>,
  \<open>left = S + L\<close> unless \<open>S\<close> is \<open>0xefff\<close>. The result pair is \<open>(left, right)\<close>.
\<close>

lemma find_eye_in_helper_arr_off_sentinel:
  assumes "1 \<le> mx" and "2 * mx \<le> int (length (helper_arr m))"
  shows "(samples_zero (helper_arr m) 0 (2 * mx) \<longrightarrow>
            find_eye_in_helper_arr m UNSET_DELAY UNSET_DELAY mx = Inr (UNSET_DELAY, UNSET_DELAY))
       \<and> (0 \<le> r \<and> r < l \<and> l \<le> 2 * mx \<and> r \<noteq> UNSET_DELAY \<and> samples_zero (helper_arr m) 0 r
            \<and> samples_nonzero (helper_arr m) r l \<and> (l < 2 * mx \<longrightarrow> helper_arr m ! nat l = 0) \<longrightarrow>
            find_eye_in_helper_arr m UNSET_DELAY UNSET_DELAY mx = Inr (l, r))
       \<and> (samples_nonzero (helper_arr m) 0 (2 * mx) \<longrightarrow>
            find_eye_in_helper_arr m UNSET_DELAY UNSET_DELAY mx = Inr (2 * mx, 0))
       \<and> (0 < S \<and> 0 < L \<and> S + L < mx \<and> S \<noteq> UNSET_DELAY \<and> samples_zero (helper_arr m) 0 S
            \<and> samples_nonzero (helper_arr m) S (S + L)
            \<and> samples_zero (helper_arr m) (S + L) (2 * mx) \<longrightarrow>
            find_eye_in_helper_arr m UNSET_DELAY UNSET_DELAY mx = Inr (S + L, S))"
proof (intro conjI impI)
  assume "samples_zero (helper_arr m) 0 (2 * mx)"
  with assms show "find_eye_in_helper_arr m UNSET_DELAY UNSET_DELAY mx = Inr (UNSET_DELAY, UNSET_DELAY)"
    by (simp add: find_eye_all_zero)
next
  assume "0 \<le> r \<and> r < l \<and> l \<le> 2 * mx \<and> r \<noteq> UNSET_DELAY \<and> samples_zero (helper_arr m) 0 r
            \<and> samples_nonzero (helper_arr m) r l \<and> (l < 2 * mx \<longrightarrow> helper_arr m ! nat l = 0)"
  with assms show "find_eye_in_helper_arr m UNSET_DELAY UNSET_DELAY mx = Inr (l, r)"
    by (intro find_eye_window) simp_all
next
  assume "samples_nonzero (helper_arr m) 0 (2 * mx)"
  moreover have "samples_zero (helper_arr m) 0 0" by (simp add: samples_zero_def)
  ultimately show "find_eye_in_helper_arr m UNSET_DELAY UNSET_DELAY mx = Inr (2 * mx, 0)"
    using assms by (intro find_eye_window) (simp_all add: UNSET_DELAY_def)
next
  assume h: "0 < S \<and> 0 < L \<and> S + L < mx \<and> S \<noteq> UNSET_DELAY \<and> samples_zero (helper_arr m) 0 S
            \<and> samples_nonzero (helper_arr m) S (S + L)
            \<and> samples_zero (helper_arr m) (S + L) (2 * mx)"
  then have "helper_arr m ! nat (S + L) = 0"
    using assms by (simp add: samples_zero_def)
  with h assms show "find_eye_in_helper_arr m UNSET_DELAY UNSET_DELAY mx = Inr (S + L, S)"
    by (intro find_eye_window) simp_all
qed

lemma find_eye_in_helper_arr_examples:
  "find_eye_in_helper_arr (mach_init [0, 0, 0, 0]) UNSET_DELAY UNSET_DELAY 2
     = Inr (UNSET_DELAY, UNSET_DELAY)
   \<and> find_eye_in_helper_arr (mach_init [1, 1, 1, 1]) UNSET_DELAY UNSET_DELAY 2 = Inr (4, 0)
   \<and> find_eye_in_helper_arr (mach_init [0, 1, 1, 0, 0, 0, 0, 0]) UNSET_DELAY UNSET_DELAY 4
     = Inr (3, 1)"
proof -
  have z: "samples_zero [0, 0, 0, 0] 0 (2 * 2)" by code_simp
  have o: "samples_nonzero [1, 1, 1, 1] 0 (2 * 2)" by code_simp
  have r1: "samples_zero [0, 1, 1, 0, 0, 0, 0, 0] 0 1" by code_simp
  have r2: "samples_nonzero [0, 1, 1, 0, 0, 0, 0, 0] 1 (1 + 2)" by code_simp
  have r3: "samples_zero [0, 1, 1, 0, 0, 0, 0, 0] (1 + 2) (2 * 4)" by code_simp
  have a: "find_eye_in_helper_arr (mach_init [0, 0, 0, 0]) UNSET_DELAY UNSET_DELAY 2
     = Inr (UNSET_DELAY, UNSET_DELAY)"
    using find_eye_in_helper_arr_off_sentinel [of 2 "mach_init [0, 0, 0, 0]"] z
    by (simp add: mach_init_def)
  have b: "find_eye_in_helper_arr (mach_init [1, 1, 1, 1]) UNSET_DELAY UNSET_DELAY 2 = Inr (4, 0)"
    using find_eye_in_helper_arr_off_sentinel [of 2 "mach_init [1, 1, 1, 1]"] o
    by (simp add: mach_init_def)
  have c: "find_eye_in_helper_arr (mach_init [0, 1, 1, 0, 0, 0, 0, 0]) UNSET_DELAY UNSET_DELAY 4
     = Inr (3, 1)"
    using find_eye_in_helper_arr_off_sentinel
            [of 4 "mach_init [0, 1, 1, 0, 0, 0, 0, 0]" _ _ 1 2] r1 r2 r3
    by (simp add: mach_init_def UNSET_DELAY_def)
  from a b c show ?thesis by simp
qed

text \<open>
  C1. The claim, and the documentation of \<^verbatim>\<open>find_eye_in_helper_arr\<close> in
  \<^verbatim>\<open>eye_detection_helper.h\<close> (\<^verbatim>\<open>right\<close> is the first index with a non-zero value), fail
  where the first true sample sits at the index \<open>0xefff = 61439\<close>, the value of the
  sentinel: with \<open>max = 30721\<close>, a helper array of \<open>2 * max\<close> samples, the samples below
  \<open>61439\<close> false and the samples \<open>61439\<close> and \<open>61440\<close> true, \<open>right\<close> comes back as
  \<open>61440\<close>, not as the index \<open>61439\<close> of the first true sample (\<open>left\<close> is \<open>61441\<close>).
\<close>

theorem find_eye_in_helper_arr_at_sentinel:
  "int (length sentinel_buffer) = 2 * 30721
   \<and> take 61439 sentinel_buffer = replicate 61439 0
   \<and> sentinel_buffer ! 61439 \<noteq> 0
   \<and> find_eye_in_helper_arr (mach_init sentinel_buffer) UNSET_DELAY UNSET_DELAY 30721
       = Inr (61441, 61440)"
proof -
  let ?a = sentinel_buffer
  have len: "length ?a = 61442" by (simp add: sentinel_buffer_def)
  have sz: "samples_zero ?a 0 61439"
    by (auto simp: samples_zero_def sentinel_buffer_def nth_append)
  have nz: "?a ! 61439 \<noteq> 0"
    by (simp add: sentinel_buffer_def nth_append)
  have "find_eye_loop ?a 30721 0 UNSET_DELAY UNSET_DELAY
          = find_eye_loop ?a 30721 61439 UNSET_DELAY UNSET_DELAY"
    using find_eye_loop_skip_zero [of 0 61439 30721 ?a UNSET_DELAY] sz len by simp
  also have "\<dots> = find_eye_loop ?a 30721 61440 UNSET_DELAY 61439"
    using find_eye_loop_first_nonzero [of 61439 30721 ?a UNSET_DELAY] len
    by (simp add: sentinel_buffer_def nth_append)
  also have "\<dots> = find_eye_loop ?a 30721 61441 UNSET_DELAY 61440"
    by (subst find_eye_loop.simps) (simp add: rd_def sentinel_buffer_def nth_append UNSET_DELAY_def)
  also have "\<dots> = Inr (True, 61441, 61440)"
    by (subst find_eye_loop.simps) (simp add: rd_def sentinel_buffer_def nth_append UNSET_DELAY_def)
  finally have "find_eye_in_helper_arr (mach_init ?a) UNSET_DELAY UNSET_DELAY 30721
       = Inr (61441, 61440)"
    by (simp add: find_eye_in_helper_arr_def mach_init_def)
  moreover have "take 61439 ?a = replicate 61439 0"
    by (simp add: sentinel_buffer_def)
  ultimately show ?thesis using len nz by simp
qed

section \<open>The data-mask eye scan\<close>

lemma inc_dly_funpow:
  "dly ((inc_dly l ^^ k) m) l = dly m l + int k \<and> console ((inc_dly l ^^ k) m) = console m"
  by (induction k) (simp_all add: inc_dly_def)

lemma set_dly_programs: "dly (set_dly l n m) l = int (nat n)"
  using inc_dly_funpow [of "nat n" l "rst_dly l m"] by (simp add: set_dly_def rst_dly_def)

lemma set_dly_console: "console (set_dly l n m) = console m"
  using inc_dly_funpow [of "nat n" l "rst_dly l m"] by (simp add: set_dly_def rst_dly_def)

lemma dm_byte_loop_console:
  "console (dm_byte_loop dev ctx channel rank module mr5 works byte m) = console m"
proof (induction dev ctx channel rank module mr5 works byte m rule: dm_byte_loop.induct)
  case (1 dev ctx channel rank module mr5 works byte m)
  show ?case
  proof (cases "byte < 16 \<and> works \<noteq> 0")
    case True
    then show ?thesis
      using "1.IH" by (subst dm_byte_loop.simps) (simp add: write_dm_lfsr_check_def probe_def)
  next
    case False
    then show ?thesis by (subst dm_byte_loop.simps) auto
  qed
qed

lemma dm_delay_loop_inside:
  "delay < max_delay_taps ctx \<Longrightarrow> e_state eye = INSIDE \<Longrightarrow>
   fst (dm_delay_loop dev ctx channel rank module mr5 delay eye m)
     = eye\<lparr>e_end := max_delay_taps ctx, e_state := AFTER\<rparr>
   \<and> console (snd (dm_delay_loop dev ctx channel rank module mr5 delay eye m))
     = console m @ replicate (nat (max_delay_taps ctx - delay)) (Tap 1)"
proof (induction n \<equiv> "nat (max_delay_taps ctx - delay)" arbitrary: delay m)
  case 0
  then show ?case by simp
next
  case (Suc n)
  let ?m1 = "inc_dly (ODLY_DM_line channel module)
               (printf (Tap 1) (dm_byte_loop dev ctx channel rank module mr5 1 0 m))"
  have c1: "console ?m1 = console m @ [Tap 1]"
    by (simp add: inc_dly_def printf_def dm_byte_loop_console)
  show ?case
  proof (cases "delay = max_delay_taps ctx - 1")
    case True
    then have stop: "dm_delay_loop dev ctx channel rank module mr5 (delay + 1)
                  (eye\<lparr>e_end := delay + 1, e_state := AFTER\<rparr>) ?m1
                = (eye\<lparr>e_end := delay + 1, e_state := AFTER\<rparr>, ?m1)"
      by (subst dm_delay_loop.simps) simp
    have "dm_delay_loop dev ctx channel rank module mr5 delay eye m
            = (eye\<lparr>e_end := delay + 1, e_state := AFTER\<rparr>, ?m1)"
      using Suc.prems True stop by (subst dm_delay_loop.simps) (simp add: Let_def)
    with True c1 show ?thesis by simp
  next
    case False
    with Suc.prems have lt: "delay + 1 < max_delay_taps ctx" by simp
    have n: "n = nat (max_delay_taps ctx - (delay + 1))"
      using Suc.hyps(2) by linarith
    have step: "dm_delay_loop dev ctx channel rank module mr5 delay eye m
            = dm_delay_loop dev ctx channel rank module mr5 (delay + 1) eye ?m1"
      using Suc.prems False by (subst dm_delay_loop.simps) (simp add: Let_def)
    have r: "replicate (nat (max_delay_taps ctx - delay)) (Tap 1)
               = Tap 1 # replicate (nat (max_delay_taps ctx - (delay + 1))) (Tap 1)"
      using Suc.hyps(2) [symmetric] n by simp
    show ?thesis
      using Suc.hyps(1) [OF n lt Suc.prems(2), of ?m1] step c1 r by simp
  qed
qed

lemma dm_delay_loop_from_start:
  assumes "1 \<le> max_delay_taps ctx"
  shows "fst (dm_delay_loop dev ctx channel rank module mr5 0 DEFAULT_EYE m)
           = \<lparr>e_state = AFTER, e_start = 0, e_center = - 1, e_end = max_delay_taps ctx\<rparr>
       \<and> console (snd (dm_delay_loop dev ctx channel rank module mr5 0 DEFAULT_EYE m))
           = console m @ replicate (nat (max_delay_taps ctx)) (Tap 1)"
proof -
  let ?m1 = "inc_dly (ODLY_DM_line channel module)
               (printf (Tap 1) (dm_byte_loop dev ctx channel rank module mr5 1 0 m))"
  let ?e1 = "DEFAULT_EYE\<lparr>e_start := 0, e_state := INSIDE\<rparr>"
  have c1: "console ?m1 = console m @ [Tap 1]"
    by (simp add: inc_dly_def printf_def dm_byte_loop_console)
  show ?thesis
  proof (cases "max_delay_taps ctx = 1")
    case True
    then have stop: "dm_delay_loop dev ctx channel rank module mr5 (0 + 1)
                  (?e1\<lparr>e_end := 0 + 1, e_state := AFTER\<rparr>) ?m1
                = (?e1\<lparr>e_end := 0 + 1, e_state := AFTER\<rparr>, ?m1)"
      by (subst dm_delay_loop.simps) simp
    have "dm_delay_loop dev ctx channel rank module mr5 0 DEFAULT_EYE m
            = (?e1\<lparr>e_end := 0 + 1, e_state := AFTER\<rparr>, ?m1)"
      using True stop by (subst dm_delay_loop.simps) (simp add: Let_def DEFAULT_EYE_def)
    with True c1 show ?thesis by (simp add: DEFAULT_EYE_def)
  next
    case False
    with assms have lt: "1 < max_delay_taps ctx" by simp
    have step: "dm_delay_loop dev ctx channel rank module mr5 0 DEFAULT_EYE m
            = dm_delay_loop dev ctx channel rank module mr5 1 ?e1 ?m1"
      using lt by (subst dm_delay_loop.simps) (simp add: Let_def DEFAULT_EYE_def)
    have r: "replicate (nat (max_delay_taps ctx)) (Tap 1)
               = Tap 1 # replicate (nat (max_delay_taps ctx - 1)) (Tap 1)"
    proof -
      from lt have "nat (max_delay_taps ctx) = Suc (nat (max_delay_taps ctx - 1))" by linarith
      then show ?thesis by simp
    qed
    show ?thesis
      using dm_delay_loop_inside [OF lt, of ?e1 dev channel rank module mr5 ?m1] step c1 r
      by (simp add: DEFAULT_EYE_def)
  qed
qed

text \<open>
  C10. In the DM-only eye scan the verdict of a tap never reads what
  \<^verbatim>\<open>write_dm_lfsr_check\<close> returns. So, for every module and every behaviour of the
  device, on a delay line of at least one tap every tap is recorded as working, the DM eye
  spans \<open>[0, max_delay_taps)\<close>, the DM delay is programmed to \<open>max_delay_taps / 2\<close>, the
  scan returns success, and the end of \<^verbatim>\<open>module_vref_scan\<close> returns \<open>best_vref\<close>,
  never the \<open>-1\<close> that aborts the rank.
\<close>

theorem moduel_dm_scan_ignores_check:
  assumes "1 \<le> max_delay_taps ctx"
  shows "fst (dm_delay_loop dev ctx channel rank module mr5 0 DEFAULT_EYE
                (rst_dly (ODLY_DM_line channel module) m))
           = \<lparr>e_state = AFTER, e_start = 0, e_center = - 1, e_end = max_delay_taps ctx\<rparr>
       \<and> console (snd (moduel_dm_scan dev ctx channel rank module mr5 m))
           = console m @ replicate (nat (max_delay_taps ctx)) (Tap 1)
       \<and> fst (moduel_dm_scan dev ctx channel rank module mr5 m)
       \<and> dly (snd (moduel_dm_scan dev ctx channel rank module mr5 m)) (ODLY_DM_line channel module)
           = max_delay_taps ctx sdiv 2
       \<and> fst (module_vref_scan_dm dev ctx channel rank module mr5w best_vref m) = best_vref"
proof -
  let ?m0 = "rst_dly (ODLY_DM_line channel module) m"
  have c0: "console ?m0 = console m" by (simp add: rst_dly_def)
  have half: "int (nat (max_delay_taps ctx sdiv 2)) = max_delay_taps ctx sdiv 2"
    using assms by (simp add: signed_divide_int_def sgn_if)
  have scan: "\<And>mr5 m. fst (moduel_dm_scan dev ctx channel rank module mr5 m)"
  proof -
    fix mr5 m
    show "fst (moduel_dm_scan dev ctx channel rank module mr5 m)"
      using dm_delay_loop_from_start
              [OF assms, of dev channel rank module mr5 "rst_dly (ODLY_DM_line channel module) m"]
      by (simp add: moduel_dm_scan_def Let_def case_prod_beta)
  qed
  have a: "fst (dm_delay_loop dev ctx channel rank module mr5 0 DEFAULT_EYE ?m0)
           = \<lparr>e_state = AFTER, e_start = 0, e_center = - 1, e_end = max_delay_taps ctx\<rparr>"
    using dm_delay_loop_from_start [OF assms, of dev channel rank module mr5 ?m0] by simp
  have b: "console (snd (moduel_dm_scan dev ctx channel rank module mr5 m))
           = console m @ replicate (nat (max_delay_taps ctx)) (Tap 1)"
    using dm_delay_loop_from_start [OF assms, of dev channel rank module mr5 ?m0] c0
    by (simp add: moduel_dm_scan_def Let_def set_dly_console case_prod_beta)
  have d: "dly (snd (moduel_dm_scan dev ctx channel rank module mr5 m)) (ODLY_DM_line channel module)
           = max_delay_taps ctx sdiv 2"
    using dm_delay_loop_from_start [OF assms, of dev channel rank module mr5 ?m0] half
    by (simp add: moduel_dm_scan_def Let_def set_dly_programs case_prod_beta)
  have e: "fst (module_vref_scan_dm dev ctx channel rank module mr5w best_vref m) = best_vref"
    using scan [of "uint mr5w" m]
    by (simp add: module_vref_scan_dm_def Let_def case_prod_beta)
  from a b scan [of mr5 m] d e show ?thesis by simp
qed

theorem moduel_dm_scan_ignores_check_witness:
  "1 \<le> max_delay_taps sample_ctx
   \<and> fst (moduel_dm_scan dead_device sample_ctx 0 0 0 32 (mach_init []))
   \<and> console (snd (moduel_dm_scan dead_device sample_ctx 0 0 0 32 (mach_init [])))
       = replicate 4 (Tap 1)
   \<and> dly (snd (moduel_dm_scan dead_device sample_ctx 0 0 0 32 (mach_init []))) (ODLY_DM_line 0 0) = 2
   \<and> fst (module_vref_scan_dm dead_device sample_ctx 0 0 0 32 70 (mach_init [])) = 70"
  using moduel_dm_scan_ignores_check [of sample_ctx dead_device 0 0 0 32 "mach_init []" 32 70]
  by (simp add: sample_ctx_def mach_init_def signed_divide_int_def)

section \<open>The write data-eye scan\<close>











lemma upto_shift: "cycle + int (Suc n) - 1 = cycle + 1 + int n - 1"
  by simp












section \<open>Read training: which failures abort\<close>








lemma rank_runs_length: "length (rank_runs dev ctx steps m) = length steps"
  by (induction steps arbitrary: m) (simp_all add: Let_def case_prod_beta)












section \<open>The verdict of a chip-select tap\<close>

lemma reduce_cs_loop_fault:
  "reduce_cs_loop cs bound module ok = Inl e \<Longrightarrow> e = ShiftOutOfRange"
proof (induction cs bound module ok rule: reduce_cs_loop.induct)
  case (1 cs bound module ok)
  from "1.prems" show ?case
    by (subst (asm) reduce_cs_loop.simps) (auto split: if_splits dest: "1.IH")
qed

lemma bit_step: "ok = 0 \<or> ok = 1 \<Longrightarrow>
  (ok::32 word) AND (drop_bit k cs AND 1) = (if ok = 1 \<and> bit cs k then 1 else 0)"
  by (auto simp: and_one_eq bit_iff_odd_drop_bit mod_2_eq_odd)

lemma reduce_cs_loop_total:
  "0 \<le> module \<Longrightarrow> module \<le> bound \<Longrightarrow> bound \<le> 32 \<Longrightarrow> ok = 0 \<or> ok = 1 \<Longrightarrow>
   reduce_cs_loop cs bound module ok
     = Inr (if ok = 1 \<and> (\<forall>i. module \<le> i \<and> i < bound \<longrightarrow> bit cs (nat i)) then 1 else 0)"
proof (induction n \<equiv> "nat (bound - module)" arbitrary: module ok)
  case 0
  then have "module = bound" by simp
  with 0 show ?case by (subst reduce_cs_loop.simps) auto
next
  case (Suc n)
  then have lt: "module < bound" by linarith
  have n: "n = nat (bound - (module + 1))" using Suc.hyps(2) by linarith
  let ?ok = "ok AND (drop_bit (nat module) cs AND 1)"
  have ok': "?ok = (if ok = 1 \<and> bit cs (nat module) then 1 else 0)"
    using Suc.prems(4) by (rule bit_step)
  then have b: "?ok = 0 \<or> ?ok = 1" by simp
  have step: "reduce_cs_loop cs bound module ok = reduce_cs_loop cs bound (module + 1) ?ok"
    using lt Suc.prems by (subst reduce_cs_loop.simps) simp
  have split: "(\<forall>i. module \<le> i \<and> i < bound \<longrightarrow> bit cs (nat i))
      = (bit cs (nat module) \<and> (\<forall>i. module + 1 \<le> i \<and> i < bound \<longrightarrow> bit cs (nat i)))"
  proof
    assume a: "\<forall>i. module \<le> i \<and> i < bound \<longrightarrow> bit cs (nat i)"
    with lt have "bit cs (nat module)" by simp
    moreover from a have "\<forall>i. module + 1 \<le> i \<and> i < bound \<longrightarrow> bit cs (nat i)" by simp
    ultimately show "bit cs (nat module) \<and> (\<forall>i. module + 1 \<le> i \<and> i < bound \<longrightarrow> bit cs (nat i))"
      by simp
  next
    assume a: "bit cs (nat module) \<and> (\<forall>i. module + 1 \<le> i \<and> i < bound \<longrightarrow> bit cs (nat i))"
    show "\<forall>i. module \<le> i \<and> i < bound \<longrightarrow> bit cs (nat i)"
    proof (intro allI impI)
      fix i assume i: "module \<le> i \<and> i < bound"
      show "bit cs (nat i)"
      proof (cases "i = module")
        case True with a show ?thesis by simp
      next
        case False with i a show ?thesis by simp
      qed
    qed
  qed
  have "reduce_cs_loop cs bound (module + 1) ?ok
     = Inr (if ?ok = 1 \<and> (\<forall>i. module + 1 \<le> i \<and> i < bound \<longrightarrow> bit cs (nat i)) then 1 else 0)"
    using Suc.hyps(1) [OF n _ _ Suc.prems(3) b] Suc.prems lt by simp
  with step ok' split show ?case by auto
qed

lemma reduce_cs_total:
  assumes "0 \<le> n" and "n \<le> 32"
  shows "reduce_cs cs n = Inr (if \<forall>i. 0 \<le> i \<and> i < n \<longrightarrow> bit cs (nat i) then 1 else 0)"
proof -
  from assms have "n mod 2 ^ 32 = n" by simp
  then show ?thesis
    using reduce_cs_loop_total [of 0 n 1 cs] assms by (simp add: reduce_cs_def)
qed

lemma reduce_cs_fault: "reduce_cs cs n = Inl e \<Longrightarrow> e = ShiftOutOfRange \<and> \<not> (0 \<le> n \<and> n \<le> 32)"
proof
  assume a: "reduce_cs cs n = Inl e"
  then show "e = ShiftOutOfRange"
    by (auto simp: reduce_cs_def split: sum.splits dest: reduce_cs_loop_fault)
  from a show "\<not> (0 \<le> n \<and> n \<le> 32)"
    using reduce_cs_total [of n cs] by auto
qed

lemma cs_filter_primary_cases:
  "fst (cs_filter_primary P m) = P \<or> fst (cs_filter_primary P m) = 0"
  by (simp add: cs_filter_primary_def Let_def)

lemma cs_filter_primary_recorded:
  "fst (cs_filter_primary P m) AND NOT (helper_modules_without_shift (snd (cs_filter_primary P m))) = 0"
  by (simp add: cs_filter_primary_def Let_def bit_eq_iff bit_simps) 

lemma cs_filter_opposite_cases:
  "fst (cs_filter_opposite O' m) = O' \<or> fst (cs_filter_opposite O' m) = 0"
  by (simp add: cs_filter_opposite_def Let_def)

lemma cs_filter_opposite_disjoint:
  "fst (cs_filter_opposite O' m) AND helper_modules_without_shift m = 0"
proof (cases "O' AND NOT (helper_modules_without_shift m) = O'")
  case True
  have "O' AND helper_modules_without_shift m
          = (O' AND NOT (helper_modules_without_shift m)) AND helper_modules_without_shift m"
    using True by simp
  also have "\<dots> = 0" by (simp add: bit_eq_iff bit_simps)
  finally show ?thesis using True by (simp add: cs_filter_opposite_def Let_def)
next
  case False
  then show ?thesis by (simp add: cs_filter_opposite_def Let_def)
qed

lemma cs_filters_disjoint:
  "fst (cs_filter_primary P m) AND fst (cs_filter_opposite O' (snd (cs_filter_primary P m))) = 0"
proof -
  let ?fw = "fst (cs_filter_primary P m)" and ?m1 = "snd (cs_filter_primary P m)"
  let ?fo = "fst (cs_filter_opposite O' ?m1)"
  have a: "?fw AND NOT (helper_modules_without_shift ?m1) = 0"
    by (rule cs_filter_primary_recorded)
  have b: "?fo AND helper_modules_without_shift ?m1 = 0"
    by (rule cs_filter_opposite_disjoint)
  show ?thesis
  proof (rule bit_eqI)
    fix n
    assume "possible_bit TYPE(32 word) n"
    have "\<not> (bit ?fw n \<and> bit ?fo n)"
    proof
      assume c: "bit ?fw n \<and> bit ?fo n"
      from a have "\<not> bit (?fw AND NOT (helper_modules_without_shift ?m1)) n" by simp
      with c have h: "bit (helper_modules_without_shift ?m1) n"
        by (auto simp: bit_simps dest: bit_imp_possible_bit)
      from b have "\<not> bit (?fo AND helper_modules_without_shift ?m1) n" by simp
      with c h show False by (simp add: bit_simps)
    qed
    then show "bit (?fw AND ?fo) n = bit (0 :: 32 word) n"
      by (simp add: bit_simps)
  qed
qed

lemma cs_overlap_drops_opposite:
  assumes "P AND O' \<noteq> 0" and "fst (cs_filter_primary P m) = P"
  shows "fst (cs_filter_opposite O' (snd (cs_filter_primary P m))) = 0"
proof (rule ccontr)
  assume "fst (cs_filter_opposite O' (snd (cs_filter_primary P m))) \<noteq> 0"
  with cs_filter_opposite_cases [of O' "snd (cs_filter_primary P m)"]
  have "fst (cs_filter_opposite O' (snd (cs_filter_primary P m))) = O'" by simp
  with cs_filters_disjoint [of P m O'] assms show False by simp
qed

lemma cs_tap_mask_frame:
  "helper_arr (snd (cs_tap_mask ctx channel rank shift m)) = helper_arr m
   \<and> helper_arr_it (snd (cs_tap_mask ctx channel rank shift m)) = helper_arr_it m
   \<and> console (snd (cs_tap_mask ctx channel rank shift m)) = console m
   \<and> dly (snd (cs_tap_mask ctx channel rank shift m)) = dly m"
  by (simp add: cs_tap_mask_def cs_probe_def cs_filter_primary_def cs_filter_opposite_def
        probe_def Let_def case_prod_beta)

lemma CS_scan_tap_records:
  assumes "CS_scan_tap ctx channel rank shift csdly m = Inr m'"
  shows "\<exists>r. reduce_cs (fst (cs_tap_mask ctx channel rank shift m)) (modules ctx) = Inr r
            \<and> helper_arr m' ! nat (helper_arr_it m) = word_of_int r
            \<and> helper_arr_it m' = helper_arr_it m + 1
            \<and> length (helper_arr m') = length (helper_arr m)"
proof -
  let ?w = "fst (cs_tap_mask ctx channel rank shift m)"
  let ?m1 = "snd (cs_tap_mask ctx channel rank shift m)"
  obtain r where r: "reduce_cs ?w (modules ctx) = Inr r"
    using assms by (cases "reduce_cs ?w (modules ctx)")
      (simp_all add: CS_scan_tap_def case_prod_beta Let_def)
  obtain m2 where m2: "set_helper_arr_value_and_advance (word_of_int r) (printf (Tap r) ?m1) = Inr m2"
    using assms r
    by (cases "set_helper_arr_value_and_advance (word_of_int r) (printf (Tap r) ?m1)")
      (simp_all add: CS_scan_tap_def case_prod_beta Let_def)
  have m': "m' = inc_dly (CS_line channel rank 0) (m2\<lparr>seen_working := (seen_working m2 \<or> r \<noteq> 0)\<rparr>)"
    using assms r m2 by (simp add: CS_scan_tap_def case_prod_beta Let_def)
  from m2 have "helper_arr m2 ! nat (helper_arr_it m) = word_of_int r
      \<and> helper_arr_it m2 = helper_arr_it m + 1 \<and> length (helper_arr m2) = length (helper_arr m)"
    using cs_tap_mask_frame [of ctx channel rank shift m]
    by (auto simp: set_helper_arr_value_and_advance_def printf_def split: if_splits)
  with r m' show ?thesis by (simp add: inc_dly_def)
qed

lemma cs_filter_primary_result:
  "cs_filter_primary P m =
     (let H = (if seen_working m then helper_modules_without_shift m else 0);
          S = (if seen_working m then helper_modules_seen m else 0);
          A = (if P AND H = H \<and> (P AND NOT H) AND NOT S = P AND NOT H then P else 0)
      in (A, m\<lparr>helper_modules_without_shift := H OR A, helper_modules_seen := S OR A\<rparr>))"
  by (simp add: cs_filter_primary_def Let_def)

lemma cs_tap_mask_result:
  "cs_tap_mask ctx channel rank shift m =
     (let P = cs_check ctx m channel rank 0 shift (modules ctx) (die_width ctx);
          H = (if seen_working m then helper_modules_without_shift m else 0);
          S = (if seen_working m then helper_modules_seen m else 0);
          A = (if P AND H = H \<and> (P AND NOT H) AND NOT S = P AND NOT H then P else 0);
          m1 = (probe m)\<lparr>helper_modules_without_shift := H OR A, helper_modules_seen := S OR A\<rparr>;
          O' = cs_check ctx m1 channel rank 0 (lnot shift) (modules ctx) (die_width ctx);
          B = (if training_type ctx \<noteq> HOST_RCD \<and> O' AND NOT (H OR A) = O' then O' else 0)
      in (cs_combine A B,
          if training_type ctx \<noteq> HOST_RCD
          then (probe m1)\<lparr>helper_modules_seen := (S OR A) OR B\<rparr> else m1))"
  by (simp add: cs_tap_mask_def cs_probe_def cs_filter_primary_result cs_filter_opposite_def
        Let_def probe_def)

lemma cs_masks_disjoint:
  fixes P H S O' :: "32 word"
  assumes "A = (if P AND H = H \<and> (P AND NOT H) AND NOT S = P AND NOT H then P else 0)"
    and "B = (if c \<and> O' AND NOT (H OR A) = O' then O' else 0)"
  shows "A AND B = 0"
proof (cases "c \<and> O' AND NOT (H OR A) = O'")
  case True
  then have "B = O' AND NOT (H OR A)" using assms(2) by simp
  then have "A AND B = A AND (O' AND NOT (H OR A))" by simp
  also have "\<dots> = 0" by (simp add: bit_eq_iff bit_simps)
  finally show ?thesis .
next
  case False
  then show ?thesis using assms(2) by auto
qed

text \<open>
  C3, as the code has it. For every tap of a CS scan pass, with \<open>P\<close> the bitmask of the
  primary-shift check and \<open>O'\<close> the bitmask of the opposite-shift check (made after the
  primary mask has been treated), \<open>H\<close> the modules working without shift and \<open>S\<close> the
  modules seen before the tap (both empty until a tap has worked): the accepted bitmask
  of the tap is the union \<open>A OR B\<close> of the primary mask after its filtering (\<open>A\<close>: \<open>P\<close> if
  it covers \<open>H\<close> and adds only modules not seen, else zero) and of the opposite mask after
  its filtering (\<open>B\<close>: \<open>O'\<close> if it shares no module with \<open>H OR A\<close>, and zero when the RCD
  is trained), and the two never share a module, since the modules working without shift
  by then contain the primary mask just accepted. So the rejection in
  \<^verbatim>\<open>works & works_ ? 0 : works | works_\<close> never fires, and a tap at which both checks
  report some module working is not rejected: its accepted bitmask is the primary mask
  when that was accepted, and otherwise the opposite mask after its filtering. The tap
  completes for a module count in \<open>[0, 32]\<close> and a cursor inside the helper array, and the
  value it records at the cursor is the AND across all module bits of the accepted
  bitmask, reduced to a single boolean.
\<close>

theorem cs_tap_verdict:
  "let P = cs_check ctx m channel rank 0 shift (modules ctx) (die_width ctx);
       H = (if seen_working m then helper_modules_without_shift m else 0);
       S = (if seen_working m then helper_modules_seen m else 0);
       A = (if P AND H = H \<and> (P AND NOT H) AND NOT S = P AND NOT H then P else 0);
       m1 = (probe m)\<lparr>helper_modules_without_shift := H OR A, helper_modules_seen := S OR A\<rparr>;
       O' = cs_check ctx m1 channel rank 0 (lnot shift) (modules ctx) (die_width ctx);
       B = (if training_type ctx \<noteq> HOST_RCD \<and> O' AND NOT (H OR A) = O' then O' else 0)
   in fst (cs_tap_mask ctx channel rank shift m) = A OR B
    \<and> A AND B = 0
    \<and> helper_modules_without_shift (snd (cs_tap_mask ctx channel rank shift m)) = H OR A
    \<and> (P AND O' \<noteq> 0 \<longrightarrow> A OR B = (if A = P then P else B))
    \<and> (0 \<le> modules ctx \<and> modules ctx \<le> 32
          \<and> 0 \<le> helper_arr_it m \<and> helper_arr_it m < int (length (helper_arr m))
        \<longrightarrow> (\<exists>m'. CS_scan_tap ctx channel rank shift csdly m = Inr m'))
    \<and> (\<forall>m'. CS_scan_tap ctx channel rank shift csdly m = Inr m' \<longrightarrow>
          (\<exists>r. reduce_cs (A OR B) (modules ctx) = Inr r
             \<and> helper_arr m' ! nat (helper_arr_it m) = word_of_int r
             \<and> (0 \<le> modules ctx \<and> modules ctx \<le> 32 \<longrightarrow>
                  r = (if \<forall>i. 0 \<le> i \<and> i < modules ctx \<longrightarrow> bit (A OR B) (nat i)
                       then 1 else 0))))"
proof -
  define P where "P = cs_check ctx m channel rank 0 shift (modules ctx) (die_width ctx)"
  define H where "H = (if seen_working m then helper_modules_without_shift m else 0)"
  define S where "S = (if seen_working m then helper_modules_seen m else 0)"
  define A where "A = (if P AND H = H \<and> (P AND NOT H) AND NOT S = P AND NOT H then P else 0)"
  define m1 where
    "m1 = (probe m)\<lparr>helper_modules_without_shift := H OR A, helper_modules_seen := S OR A\<rparr>"
  define O' where "O' = cs_check ctx m1 channel rank 0 (lnot shift) (modules ctx) (die_width ctx)"
  define B where "B = (if training_type ctx \<noteq> HOST_RCD \<and> O' AND NOT (H OR A) = O' then O' else 0)"
  note defs = P_def H_def S_def A_def m1_def O'_def B_def
  have tm: "cs_tap_mask ctx channel rank shift m =
     (cs_combine A B,
      if training_type ctx \<noteq> HOST_RCD
      then (probe m1)\<lparr>helper_modules_seen := (S OR A) OR B\<rparr> else m1)"
    unfolding defs using cs_tap_mask_result [of ctx channel rank shift m]
    by (simp only: Let_def)
  have d: "A AND B = 0"
    using A_def B_def by (rule cs_masks_disjoint)
  then have mask: "fst (cs_tap_mask ctx channel rank shift m) = A OR B"
    by (simp add: tm cs_combine_def)
  have h: "helper_modules_without_shift (snd (cs_tap_mask ctx channel rank shift m)) = H OR A"
    by (simp add: tm m1_def probe_def)
  have o: "P AND O' \<noteq> 0 \<longrightarrow> A OR B = (if A = P then P else B)"
  proof
    assume a: "P AND O' \<noteq> 0"
    show "A OR B = (if A = P then P else B)"
    proof (cases "A = P")
      case True
      have "B = 0"
      proof (rule ccontr)
        assume "B \<noteq> 0"
        then have "B = O'" by (auto simp: B_def split: if_splits)
        with d True a show False by simp
      qed
      with True show ?thesis by simp
    next
      case False
      then have "A = 0" by (auto simp: A_def split: if_splits)
      with False show ?thesis by simp
    qed
  qed
  have t: "0 \<le> modules ctx \<and> modules ctx \<le> 32
          \<and> 0 \<le> helper_arr_it m \<and> helper_arr_it m < int (length (helper_arr m))
        \<longrightarrow> (\<exists>m'. CS_scan_tap ctx channel rank shift csdly m = Inr m')"
  proof
    assume a: "0 \<le> modules ctx \<and> modules ctx \<le> 32
          \<and> 0 \<le> helper_arr_it m \<and> helper_arr_it m < int (length (helper_arr m))"
    then obtain r where r: "reduce_cs (fst (cs_tap_mask ctx channel rank shift m)) (modules ctx) = Inr r"
      using reduce_cs_total [of "modules ctx"] by simp
    show "\<exists>m'. CS_scan_tap ctx channel rank shift csdly m = Inr m'"
      using a r cs_tap_mask_frame [of ctx channel rank shift m]
      by (simp add: CS_scan_tap_def case_prod_beta Let_def set_helper_arr_value_and_advance_def
            printf_def)
  qed
  have rec: "\<forall>m'. CS_scan_tap ctx channel rank shift csdly m = Inr m' \<longrightarrow>
          (\<exists>r. reduce_cs (A OR B) (modules ctx) = Inr r
             \<and> helper_arr m' ! nat (helper_arr_it m) = word_of_int r
             \<and> (0 \<le> modules ctx \<and> modules ctx \<le> 32 \<longrightarrow>
                  r = (if \<forall>i. 0 \<le> i \<and> i < modules ctx \<longrightarrow> bit (A OR B) (nat i)
                       then 1 else 0)))"
  proof (intro allI impI)
    fix m' assume a: "CS_scan_tap ctx channel rank shift csdly m = Inr m'"
    from CS_scan_tap_records [OF a] obtain r where
      r: "reduce_cs (A OR B) (modules ctx) = Inr r"
        "helper_arr m' ! nat (helper_arr_it m) = word_of_int r"
      unfolding mask by blast
    have "0 \<le> modules ctx \<and> modules ctx \<le> 32 \<longrightarrow>
                  r = (if \<forall>i. 0 \<le> i \<and> i < modules ctx \<longrightarrow> bit (A OR B) (nat i)
                       then 1 else 0)"
      using r(1) reduce_cs_total [of "modules ctx" "A OR B"] by auto
    with r show "\<exists>r. reduce_cs (A OR B) (modules ctx) = Inr r
             \<and> helper_arr m' ! nat (helper_arr_it m) = word_of_int r
             \<and> (0 \<le> modules ctx \<and> modules ctx \<le> 32 \<longrightarrow>
                  r = (if \<forall>i. 0 \<le> i \<and> i < modules ctx \<longrightarrow> bit (A OR B) (nat i)
                       then 1 else 0))" by blast
  qed
  from mask d h o t rec show ?thesis
    unfolding defs Let_def by blast
qed


text \<open>
  The claim as the spec states it fails on one module that both checks report: the tap is
  recorded as 1.
\<close>

theorem cs_tap_verdict_counterexample:
  "cs_check both_shifts_ctx (mach_init [0, 0]) 0 0 0 0 1 8
     AND cs_check both_shifts_ctx (probe (mach_init [0, 0])) 0 0 0 1 1 8 = 1
   \<and> CS_scan_tap both_shifts_ctx 0 0 0 0 (mach_init [0, 0])
       = Inr ((mach_init [0, 0])\<lparr>helper_arr := [1, 0], helper_arr_it := 1,
               helper_modules_without_shift := 1, helper_modules_seen := 1,
               seen_working := True, tick := 2, dly := (\<lambda>_. 0)(CS_line 0 0 0 := 1),
               console := [Tap 1]\<rparr>)"
  by (simp add: both_shifts_ctx_def sample_ctx_def mach_init_def CS_scan_tap_def cs_tap_mask_def
        cs_probe_def cs_filter_primary_def cs_filter_opposite_def cs_combine_def lnot_def
        reduce_cs_def reduce_cs_loop.simps set_helper_arr_value_and_advance_def printf_def
        probe_def inc_dly_def Let_def)

theorem cs_tap_verdict_witness:
  "cs_check both_shifts_ctx (mach_init [0, 0]) 0 0 0 0 1 8
     AND cs_check both_shifts_ctx (probe (mach_init [0, 0])) 0 0 0 1 1 8 \<noteq> 0
   \<and> fst (cs_tap_mask both_shifts_ctx 0 0 0 (mach_init [0, 0])) = 1
   \<and> helper_modules_without_shift (snd (cs_tap_mask both_shifts_ctx 0 0 0 (mach_init [0, 0]))) = 1
   \<and> (\<exists>m'. CS_scan_tap both_shifts_ctx 0 0 0 0 (mach_init [0, 0]) = Inr m'
          \<and> helper_arr m' ! 0 = 1)"
proof -
  let ?M = "mach_init [0, 0]"
  have b: "(\<forall>i. 0 \<le> i \<and> i < (1::int) \<longrightarrow> bit (1::32 word) (nat i)) = True"
  proof -
    have "bit (1::32 word) (nat i)" if "0 \<le> i \<and> i < 1" for i :: int
    proof -
      from that have "i = 0" by linarith
      then show ?thesis by simp
    qed
    then show ?thesis by blast
  qed
  have c: "modules both_shifts_ctx = 1" "die_width both_shifts_ctx = 8"
    "training_type both_shifts_ctx \<noteq> HOST_RCD"
    "cs_check both_shifts_ctx = (\<lambda>_ _ _ _ _ _ _. 1)"
    by (simp_all add: both_shifts_ctx_def sample_ctx_def)
  have s: "\<not> seen_working ?M" "helper_arr_it ?M = 0" "length (helper_arr ?M) = 2"
    by (simp_all add: mach_init_def)
  from cs_tap_verdict [of both_shifts_ctx ?M 0 0 0 0]
  have v: "fst (cs_tap_mask both_shifts_ctx 0 0 0 ?M) = 1"
    "helper_modules_without_shift (snd (cs_tap_mask both_shifts_ctx 0 0 0 ?M)) = 1"
    "\<exists>m'. CS_scan_tap both_shifts_ctx 0 0 0 0 ?M = Inr m'"
    "\<forall>m'. CS_scan_tap both_shifts_ctx 0 0 0 0 ?M = Inr m' \<longrightarrow>
          (\<exists>r. reduce_cs 1 1 = Inr r \<and> helper_arr m' ! 0 = word_of_int r \<and> r = 1)"
    by (simp_all add: Let_def c s b)
  from v(3) obtain m' where m': "CS_scan_tap both_shifts_ctx 0 0 0 0 ?M = Inr m'" by blast
  with v(4) have "helper_arr m' ! 0 = 1" by auto
  with m' v(1,2) show ?thesis by (simp add: c)
qed

section \<open>The scans stay within the helper array\<close>

lemma post_Inr [simp]: "post Q P (Inr x) = P x"
  by (simp add: post_def)

lemma post_Inl [simp]: "post Q P (Inl e) = Q e"
  by (simp add: post_def)

lemma post_bindE:
  "post Q P r \<Longrightarrow> (\<And>x. P x \<Longrightarrow> post Q R (f x)) \<Longrightarrow> post Q R (bindE r f)"
  by (cases r) simp_all

lemma post_weaken:
  "post Q P r \<Longrightarrow> (\<And>x. P x \<Longrightarrow> P' x) \<Longrightarrow> post Q P' r"
  by (cases r) simp_all

lemma for_loopE_post:
  "I a s \<Longrightarrow> a \<le> n \<Longrightarrow>
   (\<And>i s. a \<le> i \<Longrightarrow> i < n \<Longrightarrow> I i s \<Longrightarrow> post Q (I (i + 1)) (body i s)) \<Longrightarrow>
   post Q (I n) (for_loopE a n body s)"
proof (induction k \<equiv> "nat (n - a)" arbitrary: a s)
  case 0
  then have "a = n" by simp
  with 0 show ?case by (subst for_loopE.simps) simp
next
  case (Suc k)
  then have lt: "a < n" by linarith
  have k: "k = nat (n - (a + 1))" using Suc.hyps(2) by linarith
  have b: "post Q (I (a + 1)) (body a s)"
    using Suc.prems(3) [of a s] Suc.prems(1) lt by simp
  show ?case
  proof (cases "body a s")
    case (Inl e)
    with b lt show ?thesis by (subst for_loopE.simps) simp
  next
    case (Inr s')
    with b have i: "I (a + 1) s'" by simp
    have "post Q (I n) (for_loopE (a + 1) n body s')"
    proof (rule Suc.hyps(1) [OF k i])
      show "a + 1 \<le> n" using lt by simp
    next
      fix i s assume "a + 1 \<le> i" "i < n" "I i s"
      then show "post Q (I (i + 1)) (body i s)"
        using Suc.prems(3) [of i s] by simp
    qed
    with Inr lt show ?thesis by (subst for_loopE.simps) simp
  qed
qed

lemma one_stride_loop_total:
  "0 \<le> it \<Longrightarrow> mx \<le> int (length a) \<Longrightarrow> \<exists>r. one_stride_loop a mx it = Inr r"
proof (induction n \<equiv> "nat (mx - it)" arbitrary: it)
  case 0
  then have "\<not> it < mx" by simp
  then show ?case by (subst one_stride_loop.simps) simp
next
  case (Suc n)
  then have lt: "it < mx" by linarith
  have n: "n = nat (mx - (it + 1))" using Suc.hyps(2) by linarith
  from lt Suc.prems have r: "rd a it = Inr (a ! nat it)" by (simp add: rd_in_range)
  show ?case
    using lt r Suc.hyps(1) [OF n] Suc.prems
    by (subst one_stride_loop.simps) auto
qed

lemma CS_scan_tap_post:
  assumes "0 \<le> helper_arr_it m" and "helper_arr_it m < int (length (helper_arr m))"
    and "modules ctx' = modules ctx"
  shows "post (shift_fault ctx)
           (\<lambda>m'. helper_arr_it m' = helper_arr_it m + 1 \<and> length (helper_arr m') = length (helper_arr m))
           (CS_scan_tap ctx' channel rank shift csdly m)"
proof -
  let ?w = "fst (cs_tap_mask ctx' channel rank shift m)"
  let ?m1 = "snd (cs_tap_mask ctx' channel rank shift m)"
  have f: "helper_arr ?m1 = helper_arr m" "helper_arr_it ?m1 = helper_arr_it m"
    using cs_tap_mask_frame [of ctx' channel rank shift m] by simp_all
  show ?thesis
  proof (cases "reduce_cs ?w (modules ctx')")
    case (Inl e)
    with reduce_cs_fault [of ?w "modules ctx'" e] assms(3) show ?thesis
      by (simp add: CS_scan_tap_def case_prod_beta shift_fault_def)
  next
    case (Inr r)
    with assms f show ?thesis
      by (simp add: CS_scan_tap_def case_prod_beta set_helper_arr_value_and_advance_def
            printf_def inc_dly_def)
  qed
qed

lemma CS_scan_single_post:
  assumes "0 \<le> helper_arr_it m" and "0 \<le> max_delay_taps ctx"
    and "helper_arr_it m + max_delay_taps ctx \<le> int (length (helper_arr m))"
    and "modules ctx' = modules ctx" and "max_delay_taps ctx' = max_delay_taps ctx"
  shows "post (shift_fault ctx)
           (\<lambda>m'. helper_arr_it m' = helper_arr_it m + max_delay_taps ctx
                 \<and> length (helper_arr m') = length (helper_arr m))
           (CS_scan_single ctx' channel rank shift m)"
proof -
  let ?I = "\<lambda>i (s::mach). helper_arr_it s = helper_arr_it m + i \<and> length (helper_arr s) = length (helper_arr m)"
  have "post (shift_fault ctx) (?I (max_delay_taps ctx))
          (for_loopE 0 (max_delay_taps ctx) (CS_scan_tap ctx' channel rank shift) m)"
  proof (rule for_loopE_post [where I = ?I])
    show "?I 0 m" by simp
    show "0 \<le> max_delay_taps ctx" by (rule assms(2))
  next
    fix i and s :: mach assume i: "0 \<le> i" "i < max_delay_taps ctx" and s: "?I i s"
    have X: "post (shift_fault ctx)
           (\<lambda>m'. helper_arr_it m' = helper_arr_it s + 1 \<and> length (helper_arr m') = length (helper_arr s))
           (CS_scan_tap ctx' channel rank shift i s)"
      using i s assms by (intro CS_scan_tap_post) simp_all
    show "post (shift_fault ctx) (?I (i + 1)) (CS_scan_tap ctx' channel rank shift i s)"
      by (rule post_weaken [OF X]) (simp add: s)
  qed
  then show ?thesis
    unfolding CS_scan_single_def assms(5)
    by (rule post_bindE) (simp add: rst_dly_def)
qed

lemma CA_scan_single_post:
  assumes "0 \<le> helper_arr_it m" and "0 \<le> max_delay_taps ctx"
    and "helper_arr_it m + max_delay_taps ctx \<le> int (length (helper_arr m))"
  shows "post (\<lambda>_. False)
           (\<lambda>m'. helper_arr_it m' = helper_arr_it m + max_delay_taps ctx
                 \<and> length (helper_arr m') = length (helper_arr m))
           (CA_scan_single ctx channel rank address shift_back m)"
proof -
  let ?I = "\<lambda>i (s::mach). helper_arr_it s = helper_arr_it m + i \<and> length (helper_arr s) = length (helper_arr m)"
  have "post (\<lambda>_. False) (?I (max_delay_taps ctx))
          (for_loopE 0 (max_delay_taps ctx) (CA_scan_tap ctx channel rank address shift_back)
             (rst_dly (CA_line channel rank address) m))"
  proof (rule for_loopE_post [where I = ?I])
    show "?I 0 (rst_dly (CA_line channel rank address) m)" by (simp add: rst_dly_def)
    show "0 \<le> max_delay_taps ctx" by (rule assms(2))
  next
    fix i and s :: mach assume i: "0 \<le> i" "i < max_delay_taps ctx" and s: "?I i s"
    then show "post (\<lambda>_. False) (?I (i + 1)) (CA_scan_tap ctx channel rank address shift_back i s)"
      using assms
      by (simp add: CA_scan_tap_def Let_def set_helper_arr_value_and_advance_def printf_def
            probe_def inc_dly_def)
  qed
  then show ?thesis
    unfolding CA_scan_single_def
    by (rule post_bindE) (simp add: rst_dly_def)
qed

lemma CA_scan_post:
  assumes "0 \<le> max_delay_taps ctx" and "2 * max_delay_taps ctx \<le> int (length (helper_arr m))"
  shows "post (\<lambda>_. False)
           (\<lambda>m'. helper_arr_it m' = 2 * max_delay_taps ctx
                 \<and> length (helper_arr m') = length (helper_arr m))
           (CA_scan ctx channel rank address m)"
proof -
  let ?m0 = "rst_dly (CA_line channel rank address) (clear_helper_arr m)"
  have m0: "helper_arr_it ?m0 = 0" "length (helper_arr ?m0) = length (helper_arr m)"
    by (simp_all add: rst_dly_def clear_helper_arr_def)
  have "post (\<lambda>_. False)
           (\<lambda>m'. helper_arr_it m' = helper_arr_it ?m0 + max_delay_taps ctx
                 \<and> length (helper_arr m') = length (helper_arr ?m0))
           (CA_scan_single ctx channel rank address 1 ?m0)"
    using assms m0 by (intro CA_scan_single_post) simp_all
  then show ?thesis
    unfolding CA_scan_def Let_def
  proof (rule post_bindE)
    fix m1 :: mach
    assume a: "helper_arr_it m1 = helper_arr_it ?m0 + max_delay_taps ctx
                 \<and> length (helper_arr m1) = length (helper_arr ?m0)"
    have X: "post (\<lambda>_. False)
           (\<lambda>m'. helper_arr_it m' = helper_arr_it m1 + max_delay_taps ctx
                 \<and> length (helper_arr m') = length (helper_arr m1))
           (CA_scan_single ctx channel rank address 0 m1)"
      using assms m0 a by (intro CA_scan_single_post) simp_all
    show "post (\<lambda>_. False)
           (\<lambda>m'. helper_arr_it m' = 2 * max_delay_taps ctx
                 \<and> length (helper_arr m') = length (helper_arr m))
           (CA_scan_single ctx channel rank address 0 m1)"
      by (rule post_weaken [OF X]) (simp add: a m0)
  qed
qed

lemma post_no_fault: "post (\<lambda>_. False) P r \<Longrightarrow> post Q P r"
  by (cases r) simp_all

lemma one_in_post:
  assumes "1 \<le> mx" and "mx \<le> int (length (helper_arr m))"
  shows "post Q (\<lambda>v. v = - 1 \<or> v = 0 \<or> v = 1) (one_in_helper_arr m mx)"
proof -
  from assms have "0 < int (length (helper_arr m))" by linarith
  then have "rd (helper_arr m) 0 = Inr (helper_arr m ! 0)"
    by (simp add: rd_def)
  then show ?thesis
    using one_in_loop_spec [of 1 mx "helper_arr m"] assms
    by (simp add: one_in_helper_arr_def)
qed

lemma one_stride_post:
  assumes "mx \<le> int (length (helper_arr m))"
  shows "post Q (\<lambda>v. True) (one_stride_helper_arr m mx)"
  using one_stride_loop_total [of 0 mx "helper_arr m"] assms
  by (auto simp: one_stride_helper_arr_def)

lemma cs_change_polarization_post:
  assumes "1 \<le> max_delay_taps ctx" and "max_delay_taps ctx \<le> int (length (helper_arr m))"
  shows "post Q (\<lambda>v. True) (cs_change_polarization ctx m)"
proof (cases "training_type ctx = HOST_RCD")
  case False
  then show ?thesis by (simp add: cs_change_polarization_def)
next
  case True
  have "post Q (\<lambda>v. True)
          (bindE (one_in_helper_arr m (max_delay_taps ctx)) (\<lambda>one_in.
             if one_in = - 1 then
               bindE (one_stride_helper_arr m (max_delay_taps ctx)) (\<lambda>stride.
                 Inr (stride < max_delay_taps ctx sdiv 8))
             else Inr False))"
  proof (rule post_bindE [OF one_in_post [OF assms]])
    fix v :: int
    show "post Q (\<lambda>v. True)
            (if v = - 1 then
               bindE (one_stride_helper_arr m (max_delay_taps ctx)) (\<lambda>stride.
                 Inr (stride < max_delay_taps ctx sdiv 8))
             else Inr False)"
    proof (cases "v = - 1")
      case True
      have "post Q (\<lambda>v. True)
              (bindE (one_stride_helper_arr m (max_delay_taps ctx)) (\<lambda>stride.
                 Inr (stride < max_delay_taps ctx sdiv 8)))"
        by (rule post_bindE [OF one_stride_post [OF assms(2)]]) simp
      with True show ?thesis by simp
    next
      case False
      then show ?thesis by simp
    qed
  qed
  with True show ?thesis by (simp add: cs_change_polarization_def)
qed

lemma CS_scan_post:
  assumes t: "1 \<le> max_delay_taps ctx"
    and len: "2 * max_delay_taps ctx \<le> int (length (helper_arr m))"
  shows "post (shift_fault ctx)
           (\<lambda>(sub, ctx', m'). helper_arr_it m' = 2 * max_delay_taps ctx
                 \<and> length (helper_arr m') = length (helper_arr m))
           (CS_scan ctx channel rank m)"
proof -
  let ?T = "max_delay_taps ctx"
  let ?L = "length (helper_arr m)"
  let ?Q = "shift_fault ctx"
  let ?ctx1 = "ctx\<lparr>cs_invert := (cs_invert ctx)(channel := 1)\<rparr>"
  define at where "at k m' \<longleftrightarrow> helper_arr_it m' = k \<and> length (helper_arr m') = ?L" for k and m' :: mach
  have clr: "\<And>m'. at k m' \<Longrightarrow> at 0 (clear_helper_arr m')" for k
    by (simp add: at_def clear_helper_arr_def)
  have clm: "\<And>m'. at k m' \<Longrightarrow> at k (clear_modules m')" for k
    by (simp add: at_def clear_modules_def)
  have scan: "post ?Q (at (k + ?T)) (CS_scan_single c channel rank s m')"
    if "at k m'" "0 \<le> k" "k + ?T \<le> int ?L" "modules c = modules ctx" "max_delay_taps c = ?T"
    for k m' c s
  proof -
    have X: "post ?Q (\<lambda>m''. helper_arr_it m'' = helper_arr_it m' + ?T
                 \<and> length (helper_arr m'') = length (helper_arr m'))
           (CS_scan_single c channel rank s m')"
      using that t by (intro CS_scan_single_post) (simp_all add: at_def)
    show ?thesis
      by (rule post_weaken [OF X]) (use that in \<open>simp add: at_def\<close>)
  qed
  let ?m0 = "rst_dly (CS_line channel rank 0)
               ((clear_modules (clear_helper_arr m))\<lparr>seen_working := False\<rparr>)"
  have m0: "at 0 ?m0"
    by (simp add: at_def rst_dly_def clear_modules_def clear_helper_arr_def)
  have tail: "post ?Q (\<lambda>(sub, ctx', m'). at (2 * ?T) m')
      (bindE (one_in_helper_arr m2 (max_delay_taps c)) (\<lambda>one_in.
           if one_in = - 1 then
             bindE (CS_scan_single c channel rank (lnot s) (clear_helper_arr m2)) (\<lambda>m.
             bindE (CS_scan_single c channel rank (lnot (lnot s)) m) (\<lambda>m.
             Inr (True, c, m)))
           else if one_in = 1 then
             bindE (CS_scan_single c channel rank (lnot s) m2) (\<lambda>m.
             Inr (False, c, m))
           else if one_in = 0 then
             bindE (CS_scan_single c channel rank (lnot s)
                      (clear_modules (clear_helper_arr m2))) (\<lambda>m.
             bindE (CS_scan_single c channel rank s m) (\<lambda>m.
             Inr (False, c, m)))
           else Inr (False, c, m2)))"
    if m2: "at ?T m2" and c: "modules c = modules ctx" "max_delay_taps c = ?T"
    for m2 c s
  proof -
    have o: "post ?Q (\<lambda>v. v = - 1 \<or> v = 0 \<or> v = 1) (one_in_helper_arr m2 (max_delay_taps c))"
      using m2 c t len by (intro one_in_post) (simp_all add: at_def)
    show ?thesis
    proof (rule post_bindE [OF o])
      fix v :: int
      assume v: "v = - 1 \<or> v = 0 \<or> v = 1"
      have two: "post ?Q (\<lambda>(sub, ctx', m'). at (2 * ?T) m')
                   (bindE (CS_scan_single c channel rank s1 m3) (\<lambda>m.
                    bindE (CS_scan_single c channel rank s2 m) (\<lambda>m. Inr (b, c, m))))"
        if "at 0 m3" for m3 s1 s2 b
      proof (rule post_bindE [OF scan [OF that _ _ c]])
        show "(0::int) \<le> 0" by simp
        show "0 + ?T \<le> int ?L" using len t by simp
      next
        fix m4 :: mach
        assume "at (0 + ?T) m4"
        then have m4: "at ?T m4" by simp
        show "post ?Q (\<lambda>(sub, ctx', m'). at (2 * ?T) m')
                (bindE (CS_scan_single c channel rank s2 m4) (\<lambda>m. Inr (b, c, m)))"
        proof (rule post_bindE [OF scan [OF m4 _ _ c]])
          show "0 \<le> ?T" using t by simp
          show "?T + ?T \<le> int ?L" using len by simp
        next
          fix m5 :: mach
          assume "at (?T + ?T) m5"
          then show "post ?Q (\<lambda>(sub, ctx', m'). at (2 * ?T) m') (Inr (b, c, m5))"
            by (simp add: at_def)
        qed
      qed
      have one: "post ?Q (\<lambda>(sub, ctx', m'). at (2 * ?T) m')
                   (bindE (CS_scan_single c channel rank (lnot s) m2) (\<lambda>m. Inr (False, c, m)))"
      proof (rule post_bindE [OF scan [OF m2 _ _ c]])
        show "0 \<le> ?T" using t by simp
        show "?T + ?T \<le> int ?L" using len by simp
      next
        fix m5 :: mach
        assume "at (?T + ?T) m5"
        then show "post ?Q (\<lambda>(sub, ctx', m'). at (2 * ?T) m') (Inr (False, c, m5))"
          by (simp add: at_def)
      qed
      from v show "post ?Q (\<lambda>(sub, ctx', m'). at (2 * ?T) m')
          (if v = - 1 then
             bindE (CS_scan_single c channel rank (lnot s) (clear_helper_arr m2)) (\<lambda>m.
             bindE (CS_scan_single c channel rank (lnot (lnot s)) m) (\<lambda>m.
             Inr (True, c, m)))
           else if v = 1 then
             bindE (CS_scan_single c channel rank (lnot s) m2) (\<lambda>m.
             Inr (False, c, m))
           else if v = 0 then
             bindE (CS_scan_single c channel rank (lnot s)
                      (clear_modules (clear_helper_arr m2))) (\<lambda>m.
             bindE (CS_scan_single c channel rank s m) (\<lambda>m.
             Inr (False, c, m)))
           else Inr (False, c, m2))"
        using two [OF clr [OF m2]] two [OF clm [OF clr [OF m2]]] one by auto
    qed
  qed
  have "post ?Q (\<lambda>(sub, ctx', m'). at (2 * ?T) m') (CS_scan ctx channel rank m)"
    unfolding CS_scan_def Let_def
  proof (rule post_bindE [OF scan [OF m0]])
    show "(0::int) \<le> 0" by simp
    show "0 + ?T \<le> int ?L" using len t by simp
    show "modules ctx = modules ctx" by simp
    show "max_delay_taps ctx = ?T" by simp
  next
    fix m1 :: mach
    assume "at (0 + ?T) m1"
    then have m1: "at ?T m1" by simp
    have p: "post ?Q (\<lambda>v. True) (cs_change_polarization ctx m1)"
      using m1 t len by (intro cs_change_polarization_post) (simp_all add: at_def)
    show "post ?Q (\<lambda>(sub, ctx', m'). at (2 * ?T) m')
      (bindE (cs_change_polarization ctx m1) (\<lambda>change.
         bindE (if change
                then bindE (CS_scan_single ?ctx1 channel rank 1 (clear_modules (clear_helper_arr m1)))
                       (\<lambda>m. Inr (1, ?ctx1, m))
                else Inr (cs_invert ctx channel, ctx, m1)) (\<lambda>(shift, ctx, m).
         bindE (one_in_helper_arr m (max_delay_taps ctx)) (\<lambda>one_in.
           if one_in = - 1 then
             bindE (CS_scan_single ctx channel rank (lnot shift) (clear_helper_arr m)) (\<lambda>m.
             bindE (CS_scan_single ctx channel rank (lnot (lnot shift)) m) (\<lambda>m.
             Inr (True, ctx, m)))
           else if one_in = 1 then
             bindE (CS_scan_single ctx channel rank (lnot shift) m) (\<lambda>m.
             Inr (False, ctx, m))
           else if one_in = 0 then
             bindE (CS_scan_single ctx channel rank (lnot shift)
                      (clear_modules (clear_helper_arr m))) (\<lambda>m.
             bindE (CS_scan_single ctx channel rank shift m) (\<lambda>m.
             Inr (False, ctx, m)))
           else Inr (False, ctx, m)))))"
    proof (rule post_bindE [OF p])
      fix change :: bool
      have sel: "post ?Q (\<lambda>(s, c, m'). at ?T m' \<and> modules c = modules ctx \<and> max_delay_taps c = ?T)
          (if change
           then bindE (CS_scan_single ?ctx1 channel rank 1 (clear_modules (clear_helper_arr m1)))
                  (\<lambda>m. Inr (1, ?ctx1, m))
           else Inr (cs_invert ctx channel, ctx, m1))"
      proof (cases change)
        case False
        with m1 show ?thesis by simp
      next
        case True
        have "post ?Q (\<lambda>(s, c, m'). at ?T m' \<and> modules c = modules ctx \<and> max_delay_taps c = ?T)
          (bindE (CS_scan_single ?ctx1 channel rank 1 (clear_modules (clear_helper_arr m1)))
                  (\<lambda>m. Inr (1, ?ctx1, m)))"
        proof (rule post_bindE [OF scan [OF clm [OF clr [OF m1]]]])
          show "(0::int) \<le> 0" by simp
          show "0 + ?T \<le> int ?L" using len t by simp
          show "modules ?ctx1 = modules ctx" by simp
          show "max_delay_taps ?ctx1 = ?T" by simp
        next
          fix m2 :: mach
          assume "at (0 + ?T) m2"
          then show "post ?Q (\<lambda>(s, c, m'). at ?T m' \<and> modules c = modules ctx \<and> max_delay_taps c = ?T)
                  (Inr (1, ?ctx1, m2))"
            by simp
        qed
        with True show ?thesis by simp
      qed
      show "post ?Q (\<lambda>(sub, ctx', m'). at (2 * ?T) m')
         (bindE (if change
                then bindE (CS_scan_single ?ctx1 channel rank 1 (clear_modules (clear_helper_arr m1)))
                       (\<lambda>m. Inr (1, ?ctx1, m))
                else Inr (cs_invert ctx channel, ctx, m1)) (\<lambda>(shift, ctx, m).
         bindE (one_in_helper_arr m (max_delay_taps ctx)) (\<lambda>one_in.
           if one_in = - 1 then
             bindE (CS_scan_single ctx channel rank (lnot shift) (clear_helper_arr m)) (\<lambda>m.
             bindE (CS_scan_single ctx channel rank (lnot (lnot shift)) m) (\<lambda>m.
             Inr (True, ctx, m)))
           else if one_in = 1 then
             bindE (CS_scan_single ctx channel rank (lnot shift) m) (\<lambda>m.
             Inr (False, ctx, m))
           else if one_in = 0 then
             bindE (CS_scan_single ctx channel rank (lnot shift)
                      (clear_modules (clear_helper_arr m))) (\<lambda>m.
             bindE (CS_scan_single ctx channel rank shift m) (\<lambda>m.
             Inr (False, ctx, m)))
           else Inr (False, ctx, m))))"
      proof (rule post_bindE [OF sel])
        fix x :: "int \<times> training_ctx \<times> mach"
        assume x: "(case x of (s, c, m') \<Rightarrow> at ?T m' \<and> modules c = modules ctx \<and> max_delay_taps c = ?T)"
        obtain s c m2 where xe: "x = (s, c, m2)" by (cases x) auto
        with x have "at ?T m2" "modules c = modules ctx" "max_delay_taps c = ?T" by simp_all
        from tail [OF this, of s] show "post ?Q (\<lambda>(sub, ctx', m'). at (2 * ?T) m')
          ((case x of (shift, ctx, m) \<Rightarrow>
         bindE (one_in_helper_arr m (max_delay_taps ctx)) (\<lambda>one_in.
           if one_in = - 1 then
             bindE (CS_scan_single ctx channel rank (lnot shift) (clear_helper_arr m)) (\<lambda>m.
             bindE (CS_scan_single ctx channel rank (lnot (lnot shift)) m) (\<lambda>m.
             Inr (True, ctx, m)))
           else if one_in = 1 then
             bindE (CS_scan_single ctx channel rank (lnot shift) m) (\<lambda>m.
             Inr (False, ctx, m))
           else if one_in = 0 then
             bindE (CS_scan_single ctx channel rank (lnot shift)
                      (clear_modules (clear_helper_arr m))) (\<lambda>m.
             bindE (CS_scan_single ctx channel rank shift m) (\<lambda>m.
             Inr (False, ctx, m)))
           else Inr (False, ctx, m))))"
          using xe by simp
      qed
    qed
  qed
  then show ?thesis
    by (rule post_weaken) (auto simp: at_def)
qed

text \<open>
  C9. For every execution of one CS or CA scan pass, for any \<open>max_delay_taps \<ge> 1\<close> and
  any check results, on a helper array of \<open>2 * max 64 max_delay_taps\<close> entries: no
  access to the helper array is out of bounds, and the pass ends with the recording
  cursor at \<open>2 * max_delay_taps\<close>, which does not exceed the capacity
  \<open>2 * max 64 max_delay_taps\<close>. A CA pass always runs to its end; a CS pass runs to its
  end when the module count is in \<open>[0, 32]\<close>, and otherwise can only stop at the
  undefined shift of \<^verbatim>\<open>reduce_cs\<close>.
\<close>

theorem scan_pass_within_capacity:
  assumes "1 \<le> max_delay_taps ctx"
    and "length (helper_arr m) = helper_arr_capacity (max_delay_taps ctx)"
  shows "CS_scan ctx channel rank m \<noteq> Inl OutOfBounds
       \<and> (\<forall>sub ctx' m'. CS_scan ctx channel rank m = Inr (sub, ctx', m') \<longrightarrow>
              helper_arr_it m' = 2 * max_delay_taps ctx
            \<and> helper_arr_it m' \<le> 2 * max 64 (max_delay_taps ctx)
            \<and> length (helper_arr m') = helper_arr_capacity (max_delay_taps ctx))
       \<and> (0 \<le> modules ctx \<and> modules ctx \<le> 32 \<longrightarrow> (\<exists>x. CS_scan ctx channel rank m = Inr x))
       \<and> (\<exists>m'. CA_scan ctx channel rank address m = Inr m'
            \<and> helper_arr_it m' = 2 * max_delay_taps ctx
            \<and> helper_arr_it m' \<le> 2 * max 64 (max_delay_taps ctx)
            \<and> length (helper_arr m') = helper_arr_capacity (max_delay_taps ctx))"
proof -
  let ?T = "max_delay_taps ctx"
  have len: "2 * ?T \<le> int (length (helper_arr m))"
    using assms by (simp add: helper_arr_capacity_def)
  have cs: "post (shift_fault ctx)
           (\<lambda>(sub, ctx', m'). helper_arr_it m' = 2 * ?T
                 \<and> length (helper_arr m') = length (helper_arr m))
           (CS_scan ctx channel rank m)"
    using assms(1) len by (rule CS_scan_post)
  have ca: "post (\<lambda>_. False)
           (\<lambda>m'. helper_arr_it m' = 2 * ?T \<and> length (helper_arr m') = length (helper_arr m))
           (CA_scan ctx channel rank address m)"
    using assms(1) len by (intro CA_scan_post) simp_all
  have a: "CS_scan ctx channel rank m \<noteq> Inl OutOfBounds"
    using cs by (auto simp: shift_fault_def)
  have b: "\<forall>sub ctx' m'. CS_scan ctx channel rank m = Inr (sub, ctx', m') \<longrightarrow>
              helper_arr_it m' = 2 * ?T \<and> helper_arr_it m' \<le> 2 * max 64 ?T
            \<and> length (helper_arr m') = helper_arr_capacity ?T"
    using cs assms(2) by auto
  have c: "0 \<le> modules ctx \<and> modules ctx \<le> 32 \<longrightarrow> (\<exists>x. CS_scan ctx channel rank m = Inr x)"
    using cs by (cases "CS_scan ctx channel rank m") (auto simp: shift_fault_def)
  have d: "\<exists>m'. CA_scan ctx channel rank address m = Inr m'
            \<and> helper_arr_it m' = 2 * ?T \<and> helper_arr_it m' \<le> 2 * max 64 ?T
            \<and> length (helper_arr m') = helper_arr_capacity ?T"
    using ca assms(2) by (cases "CA_scan ctx channel rank address m") auto
  from a b c d show ?thesis by blast
qed

theorem scan_pass_within_capacity_witness:
  "1 \<le> max_delay_taps sample_ctx
   \<and> length (helper_arr (mach_init (replicate 128 0))) = helper_arr_capacity (max_delay_taps sample_ctx)
   \<and> 0 \<le> modules sample_ctx \<and> modules sample_ctx \<le> 32
   \<and> (\<exists>x. CS_scan sample_ctx 0 0 (mach_init (replicate 128 0)) = Inr x)
   \<and> (\<exists>m'. CA_scan sample_ctx 0 0 0 (mach_init (replicate 128 0)) = Inr m'
          \<and> helper_arr_it m' = 8)"
proof -
  have h: "1 \<le> max_delay_taps sample_ctx"
    "length (helper_arr (mach_init (replicate 128 0))) = helper_arr_capacity (max_delay_taps sample_ctx)"
    "0 \<le> modules sample_ctx \<and> modules sample_ctx \<le> 32"
    by (simp_all add: sample_ctx_def mach_init_def helper_arr_capacity_def)
  have t: "2 * max_delay_taps sample_ctx = 8" by (simp add: sample_ctx_def)
  from scan_pass_within_capacity [OF h(1) h(2), of 0 0 0] h(3) t
  have "(\<exists>x. CS_scan sample_ctx 0 0 (mach_init (replicate 128 0)) = Inr x)
   \<and> (\<exists>m'. CA_scan sample_ctx 0 0 0 (mach_init (replicate 128 0)) = Inr m'
          \<and> helper_arr_it m' = 8)"
    by auto
  with h show ?thesis by blast
qed

section \<open>Command/address training: the envelope of the windows\<close>

lemma bindE_eq_Inr: "bindE r f = Inr y \<longleftrightarrow> (\<exists>x. r = Inr x \<and> f x = Inr y)"
  by (cases r) simp_all

lemma upd3_apply:
  "upd3 f i j k v i' j' k' = (if i' = i \<and> j' = j \<and> k' = k then v else f i' j' k')"
  by (simp add: upd3_def)

lemma CA_training_window_delays:
  "ca_delays (CA_training_window ctx channel address r l) ch a k
     = (if ch = channel \<and> a = address \<and> k = 0 then max (ca_delays ctx channel address 0) r
        else if ch = channel \<and> a = address \<and> k = 1 then min (ca_delays ctx channel address 1) l
        else ca_delays ctx ch a k)"
  by (simp add: CA_training_window_def Let_def upd3_apply)

lemma CA_training_window_frame:
  "CA_training_window ctx channel address r l
     = ctx\<lparr>ca_delays := ca_delays (CA_training_window ctx channel address r l)\<rparr>"
  by (simp add: CA_training_window_def Let_def)

lemma Max_insert_Max:
  "finite A \<Longrightarrow> finite B \<Longrightarrow>
   Max (insert (Max (insert (x::int) A)) B) = Max (insert x (A \<union> B))"
proof -
  assume f: "finite A" "finite B"
  have "Max (insert x (A \<union> B)) = Max (insert x A \<union> B)" by simp
  show ?thesis
  proof (cases "B = {}")
    case True then show ?thesis by simp
  next
    case False
    have "Max (insert x (A \<union> B)) = Max (insert x A \<union> B)" by simp
    also have "\<dots> = max (Max (insert x A)) (Max B)"
      using f False by (intro Max_Un) simp_all
    also have "\<dots> = Max (insert (Max (insert x A)) B)"
      using f False by simp
    finally show ?thesis by simp
  qed
qed

lemma Min_insert_Min:
  "finite A \<Longrightarrow> finite B \<Longrightarrow>
   Min (insert (Min (insert (x::int) A)) B) = Min (insert x (A \<union> B))"
proof -
  assume f: "finite A" "finite B"
  show ?thesis
  proof (cases "B = {}")
    case True then show ?thesis by simp
  next
    case False
    have "Min (insert x (A \<union> B)) = Min (insert x A \<union> B)" by simp
    also have "\<dots> = min (Min (insert x A)) (Min B)"
      using f False by (intro Min_Un) simp_all
    also have "\<dots> = Min (insert (Min (insert x A)) B)"
      using f False by simp
    finally show ?thesis by simp
  qed
qed

lemma for_loop_inv:
  assumes "I a s" "\<And>i s. a \<le> i \<Longrightarrow> i < n \<Longrightarrow> I i s \<Longrightarrow> I (i + 1) (body i s)" "a \<le> n"
  shows "I n (for_loop a n body s)"
  using assms
proof (induction k \<equiv> "nat (n - a)" arbitrary: a s)
  case 0
  then have "a = n" by simp
  with 0 show ?case by (subst for_loop.simps) simp
next
  case (Suc k)
  then have lt: "a < n" by linarith
  have k: "k = nat (n - (a + 1))" using Suc.hyps(2) by linarith
  have "I n (for_loop (a + 1) n body (body a s))"
  proof (rule Suc.hyps(1) [OF k])
    show "I (a + 1) (body a s)" using Suc.prems(1) lt by (intro Suc.prems(2)) simp_all
    show "\<And>i s. a + 1 \<le> i \<Longrightarrow> i < n \<Longrightarrow> I i s \<Longrightarrow> I (i + 1) (body i s)"
      by (rule Suc.prems(2)) simp_all
    show "a + 1 \<le> n" using lt by simp
  qed
  with lt show ?case by (subst for_loop.simps) simp
qed

lemma CA_setup_array_result:
  assumes "0 < channels ctx"
  shows "CA_setup_array ctx = ctx\<lparr>ca_delays := ca_delays (CA_setup_array ctx)\<rparr>
     \<and> (\<forall>ch a. 0 \<le> ch \<and> ch < channels ctx \<and> 0 \<le> a \<and> a < 14 \<longrightarrow>
           ca_delays (CA_setup_array ctx) ch a 0 = - max_delay_taps ctx
         \<and> ca_delays (CA_setup_array ctx) ch a 1 = max_delay_taps ctx)"
proof -
  let ?T = "max_delay_taps ctx"
  let ?body = "\<lambda>channel address c.
         (let c = c\<lparr>ca_delays := upd3 (ca_delays c) channel address 0 (- max_delay_taps c)\<rparr>
          in c\<lparr>ca_delays := upd3 (ca_delays c) channel address 1 (max_delay_taps c)\<rparr>)"
  let ?K = "\<lambda>j i c. c\<lparr>ca_delays := ca_delays ctx\<rparr> = ctx
     \<and> (\<forall>ch a. 0 \<le> a \<and> a < 14 \<and> (0 \<le> ch \<and> ch < j \<or> ch = j \<and> a < i) \<longrightarrow>
           ca_delays c ch a 0 = - ?T \<and> ca_delays c ch a 1 = ?T)"
  let ?J = "\<lambda>j c. ?K j 0 c"
  have inner: "?J (j + 1) (for_loop 0 14 (?body j) c)" if c: "?J j c" and j: "0 \<le> j" for j c
  proof -
    define x where "x = for_loop 0 14 (?body j) c"
    have "?K j 14 (for_loop 0 14 (?body j) c)"
    proof (rule for_loop_inv [where I = "?K j"])
      show "?K j 0 c" by (rule c)
      show "(0::int) \<le> 14" by simp
    next
      fix i :: int and s :: training_ctx
      assume i: "0 \<le> i" "i < 14" and s: "?K j i s"
      from s have f: "s\<lparr>ca_delays := ca_delays ctx\<rparr> = ctx" by blast
      have "max_delay_taps (s\<lparr>ca_delays := ca_delays ctx\<rparr>) = ?T" by (simp only: f)
      then have t: "max_delay_taps s = ?T" by simp
      have fr: "(?body j i s)\<lparr>ca_delays := ca_delays ctx\<rparr> = ctx"
        using f by (simp add: Let_def)
      have d: "ca_delays (?body j i s) ch a k
          = (if ch = j \<and> a = i \<and> k = 0 then - ?T
             else if ch = j \<and> a = i \<and> k = 1 then ?T else ca_delays s ch a k)" for ch a k
        by (simp add: Let_def upd3_apply t)
      have "\<forall>ch a. 0 \<le> a \<and> a < 14 \<and> (0 \<le> ch \<and> ch < j \<or> ch = j \<and> a < i + 1) \<longrightarrow>
           ca_delays (?body j i s) ch a 0 = - ?T \<and> ca_delays (?body j i s) ch a 1 = ?T"
        using s i unfolding d by auto
      with fr show "?K j (i + 1) (?body j i s)" by blast
    qed
    then have x: "?K j 14 x" unfolding x_def .
    have "?K (j + 1) 0 x"
    proof (intro conjI allI impI)
      show "x\<lparr>ca_delays := ca_delays ctx\<rparr> = ctx" using x by blast
    next
      fix ch a :: int
      assume "0 \<le> a \<and> a < 14 \<and> (0 \<le> ch \<and> ch < j + 1 \<or> ch = j + 1 \<and> a < 0)"
      then have "0 \<le> a \<and> a < 14 \<and> (0 \<le> ch \<and> ch < j \<or> ch = j \<and> a < 14)" by arith
      with x show "ca_delays x ch a 0 = - ?T" "ca_delays x ch a 1 = ?T" by blast+
    qed
    then show ?thesis unfolding x_def .
  qed
  have r: "?J (channels ctx) (for_loop 0 (channels ctx) (\<lambda>channel. for_loop 0 14 (?body channel)) ctx)"
  proof (rule for_loop_inv [where I = ?J])
    show "?J 0 ctx" by auto
    show "0 \<le> channels ctx" using assms by simp
  next
    fix j :: int and c :: training_ctx
    assume "0 \<le> j" "j < channels ctx" "?J j c"
    then show "?J (j + 1) (for_loop 0 14 (?body j) c)" using inner by blast
  qed
  then have a: "(CA_setup_array ctx)\<lparr>ca_delays := ca_delays ctx\<rparr> = ctx"
    unfolding CA_setup_array_def by simp
  have "ctx\<lparr>ca_delays := ca_delays (CA_setup_array ctx)\<rparr>
      = (CA_setup_array ctx)\<lparr>ca_delays := ca_delays ctx\<rparr>\<lparr>ca_delays := ca_delays (CA_setup_array ctx)\<rparr>"
    by (simp only: a)
  then have "CA_setup_array ctx = ctx\<lparr>ca_delays := ca_delays (CA_setup_array ctx)\<rparr>"
    by simp
  with r show ?thesis unfolding CA_setup_array_def by simp
qed

lemma find_eye_loop_total:
  "0 \<le> it \<Longrightarrow> 2 * mx \<le> int (length a) \<Longrightarrow>
   \<exists>ret l' r'. find_eye_loop a mx it l r = Inr (ret, l', r')"
proof (induction k \<equiv> "nat (2 * mx - it)" arbitrary: it r)
  case 0
  then have "\<not> it < 2 * mx" by simp
  then show ?case by (subst find_eye_loop.simps) auto
next
  case (Suc k)
  then have lt: "it < 2 * mx" by linarith
  have k: "k = nat (2 * mx - (it + 1))" using Suc.hyps(2) by linarith
  have rd: "rd a it = Inr (a ! nat it)" using Suc.prems lt by (intro rd_in_range) simp_all
  let ?r = "if a ! nat it \<noteq> 0 \<and> r = UNSET_DELAY then it else r"
  from Suc.hyps(1) [OF k, of ?r] Suc.prems
  obtain ret l' r' where x: "find_eye_loop a mx (it + 1) l ?r = Inr (ret, l', r')" by auto
  show ?case
  proof (cases "a ! nat it = 0 \<and> ?r \<noteq> UNSET_DELAY")
    case True
    then show ?thesis by (subst find_eye_loop.simps) (auto simp: lt rd Let_def)
  next
    case False
    then have "find_eye_loop a mx it l r = find_eye_loop a mx (it + 1) l ?r"
      by (subst find_eye_loop.simps) (auto simp: lt rd Let_def)
    with x show ?thesis by simp
  qed
qed

lemma find_eye_total:
  assumes "1 \<le> mx" and "2 * mx \<le> int (length (helper_arr m))"
  shows "\<exists>l' r'. find_eye_in_helper_arr m l r mx = Inr (l', r')"
proof -
  from find_eye_loop_total [of 0 mx "helper_arr m" l r] assms
  obtain ret l' r' where x: "find_eye_loop (helper_arr m) mx 0 l r = Inr (ret, l', r')"
    by auto
  have "rd (helper_arr m) (2 * mx - 1) = Inr (helper_arr m ! nat (2 * mx - 1))"
    using assms by (intro rd_in_range) simp_all
  with x show ?thesis by (auto simp: find_eye_in_helper_arr_def)
qed

lemma finite_edges [simp]: "finite (right_edges ctx a ps)" "finite (left_edges ctx a ps)"
  by (simp_all add: right_edges_def left_edges_def)

lemma edges_append:
  "right_edges ctx a (xs @ ys) = right_edges ctx a xs \<union> right_edges ctx a ys"
  "left_edges ctx a (xs @ ys) = left_edges ctx a xs \<union> left_edges ctx a ys"
  by (auto simp: right_edges_def left_edges_def)

lemma edges_Nil [simp]: "right_edges ctx a [] = {}" "left_edges ctx a [] = {}"
  by (simp_all add: right_edges_def left_edges_def)

lemma edges_single:
  "right_edges ctx a [p] = (if pass_address p = a then {pass_right p - max_delay_taps ctx} else {})"
  "left_edges ctx a [p] = (if pass_address p = a then {pass_left p - max_delay_taps ctx} else {})"
  by (auto simp: right_edges_def left_edges_def)

lemma edges_Cons:
  "right_edges ctx a (p # ps)
     = (if pass_address p = a then insert (pass_right p - max_delay_taps ctx) (right_edges ctx a ps)
        else right_edges ctx a ps)"
  "left_edges ctx a (p # ps)
     = (if pass_address p = a then insert (pass_left p - max_delay_taps ctx) (left_edges ctx a ps)
        else left_edges ctx a ps)"
  by (auto simp: right_edges_def left_edges_def)

lemma CA_envelope_sel [simp]:
  "ca_delays (CA_envelope ctx channel ps) = CA_envelope_delays ctx channel ps"
  "max_delay_taps (CA_envelope ctx channel ps) = max_delay_taps ctx"
  "ca_line_count (CA_envelope ctx channel ps) = ca_line_count ctx"
  "ca_check (CA_envelope ctx channel ps) = ca_check ctx"
  by (simp_all add: CA_envelope_def)

lemma edges_envelope [simp]:
  "right_edges (CA_envelope ctx channel ps) = right_edges ctx"
  "left_edges (CA_envelope ctx channel ps) = left_edges ctx"
  by (intro ext, simp add: right_edges_def left_edges_def)+

lemma CA_envelope_delays_append:
  "CA_envelope_delays (CA_envelope ctx channel xs) channel ys
     = CA_envelope_delays ctx channel (xs @ ys)"
  by (intro ext)
     (simp add: CA_envelope_delays_def edges_append Max_insert_Max Min_insert_Min)

lemma CA_envelope_append:
  "CA_envelope (CA_envelope ctx channel xs) channel ys = CA_envelope ctx channel (xs @ ys)"
  using CA_envelope_delays_append [of ctx channel xs ys] by (simp add: CA_envelope_def)

lemma CA_envelope_Nil [simp]: "CA_envelope ctx channel [] = ctx"
proof -
  have "CA_envelope_delays ctx channel [] = ca_delays ctx"
    by (intro ext) (simp add: CA_envelope_delays_def)
  then show ?thesis by (simp add: CA_envelope_def)
qed

lemma CA_training_window_pass:
  assumes "pass_address p = address" and "pass_right p = r" and "pass_left p = l"
  shows "CA_training_window ctx channel address (r - max_delay_taps ctx) (l - max_delay_taps ctx)
           = CA_envelope ctx channel [p]"
proof -
  have "ca_delays (CA_training_window ctx channel address (r - max_delay_taps ctx)
                     (l - max_delay_taps ctx))
          = CA_envelope_delays ctx channel [p]"
    by (intro ext)
       (auto simp: CA_training_window_delays CA_envelope_delays_def edges_single assms)
  then show ?thesis
    using CA_training_window_frame [of ctx channel address "r - max_delay_taps ctx"
            "l - max_delay_taps ctx"]
    by (simp add: CA_envelope_def)
qed

lemma CA_scan_tap_delays:
  "CA_scan_tap (ctx\<lparr>ca_delays := d\<rparr>) ch rank a sb = CA_scan_tap ctx ch rank a sb"
  by (intro ext) (simp add: CA_scan_tap_def)

lemma CA_scan_delays:
  "CA_scan (ctx\<lparr>ca_delays := d\<rparr>) ch rank a m = CA_scan ctx ch rank a m"
  by (simp add: CA_scan_def CA_scan_single_def CA_scan_tap_delays)

lemma CA_passes_step:
  assumes "CA_scan ctx channel rank address m = Inr ms"
    and "find_eye_in_helper_arr ms UNSET_DELAY UNSET_DELAY (max_delay_taps ctx) = Inr (l, r)"
    and "M = (if l = UNSET_DELAY \<or> r = UNSET_DELAY
              then printf (CA_failed address) ms
              else printf (CA_window address (r - max_delay_taps ctx)
                             (l - max_delay_taps ctx)) ms)"
  shows "CA_passes ctx channel ((rank, address) # lines) m
     = bindE (CA_passes ctx channel lines M) (\<lambda>ps.
         Inr (\<lparr>pass_rank = rank, pass_address = address, pass_left = l, pass_right = r,
                pass_end = M\<rparr> # ps))"
  using assms by (simp add: Let_def)

lemma CA_passes_delays:
  "CA_passes (ctx\<lparr>ca_delays := d\<rparr>) channel lines m = CA_passes ctx channel lines m"
  by (induction ctx channel lines m rule: CA_passes.induct)
     (simp_all add: CA_scan_delays cong: if_cong)

lemma CA_passes_envelope:
  "CA_passes (CA_envelope ctx channel ps) channel lines m = CA_passes ctx channel lines m"
  by (simp add: CA_envelope_def CA_passes_delays)

lemma CA_passes_Cons:
  assumes "CA_passes ctx channel ((rank, address) # lines) m = Inr ps"
  shows "\<exists>ms l r p ps'.
       CA_scan ctx channel rank address m = Inr ms
     \<and> find_eye_in_helper_arr ms UNSET_DELAY UNSET_DELAY (max_delay_taps ctx) = Inr (l, r)
     \<and> p = \<lparr>pass_rank = rank, pass_address = address, pass_left = l, pass_right = r,
            pass_end = (if l = UNSET_DELAY \<or> r = UNSET_DELAY
                   then printf (CA_failed address) ms
                   else printf (CA_window address (r - max_delay_taps ctx)
                                  (l - max_delay_taps ctx)) ms)\<rparr>
     \<and> CA_passes ctx channel lines (pass_end p) = Inr ps'
     \<and> ps = p # ps'"
proof -
  obtain ms where s: "CA_scan ctx channel rank address m = Inr ms"
    using assms by (cases "CA_scan ctx channel rank address m") simp_all
  obtain l r where
    e: "find_eye_in_helper_arr ms UNSET_DELAY UNSET_DELAY (max_delay_taps ctx) = Inr (l, r)"
    using assms s
    by (cases "find_eye_in_helper_arr ms UNSET_DELAY UNSET_DELAY (max_delay_taps ctx)") auto
  define M where "M = (if l = UNSET_DELAY \<or> r = UNSET_DELAY
                   then printf (CA_failed address) ms
                   else printf (CA_window address (r - max_delay_taps ctx)
                                  (l - max_delay_taps ctx)) ms)"
  have st: "bindE (CA_passes ctx channel lines M) (\<lambda>ps.
         Inr (\<lparr>pass_rank = rank, pass_address = address, pass_left = l, pass_right = r,
                pass_end = M\<rparr> # ps)) = Inr ps"
    using assms CA_passes_step [OF s e M_def, of lines] by simp
  then obtain ps' where r: "CA_passes ctx channel lines M = Inr ps'"
    by (cases "CA_passes ctx channel lines M") simp_all
  with st have "ps = \<lparr>pass_rank = rank, pass_address = address, pass_left = l, pass_right = r,
            pass_end = M\<rparr> # ps'" by simp
  with s e r show ?thesis unfolding M_def by simp
qed

lemma CA_passes_append:
  "CA_passes ctx channel (xs @ ys) m = Inr ps \<Longrightarrow>
   \<exists>ps1 ps2. CA_passes ctx channel xs m = Inr ps1
     \<and> CA_passes ctx channel ys (passes_end m ps1) = Inr ps2 \<and> ps = ps1 @ ps2"
proof (induction xs arbitrary: m ps)
  case Nil
  then show ?case by (simp add: passes_end_def)
next
  case (Cons line xs)
  obtain rank address where line: "line = (rank, address)" by (cases line)
  from Cons.prems have "CA_passes ctx channel ((rank, address) # (xs @ ys)) m = Inr ps"
    by (simp add: line)
  from CA_passes_Cons [OF this] obtain ms l r p ps' where
    s: "CA_scan ctx channel rank address m = Inr ms"
    and e: "find_eye_in_helper_arr ms UNSET_DELAY UNSET_DELAY (max_delay_taps ctx) = Inr (l, r)"
    and p: "p = \<lparr>pass_rank = rank, pass_address = address, pass_left = l, pass_right = r,
            pass_end = (if l = UNSET_DELAY \<or> r = UNSET_DELAY
                   then printf (CA_failed address) ms
                   else printf (CA_window address (r - max_delay_taps ctx)
                                  (l - max_delay_taps ctx)) ms)\<rparr>"
    and r: "CA_passes ctx channel (xs @ ys) (pass_end p) = Inr ps'"
    and ps: "ps = p # ps'" by blast
  from Cons.IH [OF r] obtain ps1 ps2 where
    1: "CA_passes ctx channel xs (pass_end p) = Inr ps1"
    and 2: "CA_passes ctx channel ys (passes_end (pass_end p) ps1) = Inr ps2"
    and 3: "ps' = ps1 @ ps2" by blast
  have a: "CA_passes ctx channel (line # xs) m = Inr (p # ps1)"
    using 1 CA_passes_step [OF s e refl, of xs] unfolding line p by simp
  have b: "passes_end m (p # ps1) = passes_end (pass_end p) ps1"
    by (simp add: passes_end_def)
  from a b 2 3 ps show ?case by auto
qed

lemma CA_outcome_Nil [simp]: "CA_outcome ctx channel m [] = (True, ctx, m)"
  by (simp add: CA_outcome_def passes_end_def)

lemma CA_outcome_no_window:
  "\<not> has_window p \<Longrightarrow> CA_outcome ctx channel m (p # ps) = (False, ctx, pass_end p)"
  by (simp add: CA_outcome_def)

lemma CA_outcome_window:
  assumes "has_window p"
  shows "CA_outcome ctx channel m (p # ps)
           = CA_outcome (CA_envelope ctx channel [p]) channel (pass_end p) ps"
proof -
  have e: "passes_end m (p # ps) = passes_end (pass_end p) ps"
    by (simp add: passes_end_def)
  have env: "CA_envelope (CA_envelope ctx channel [p]) channel (takeWhile has_window ps)
      = CA_envelope ctx channel (p # takeWhile has_window ps)"
    by (simp add: CA_envelope_append)
  have d: "dropWhile has_window (p # ps) = dropWhile has_window ps" using assms by simp
  have t: "takeWhile has_window (p # ps) = p # takeWhile has_window ps" using assms by simp
  have a: "list_all has_window (p # ps) = list_all has_window ps" using assms by simp
  show ?thesis unfolding CA_outcome_def d t a e env ..
qed

lemma CA_outcome_append_good:
  "list_all has_window xs \<Longrightarrow>
   CA_outcome ctx channel m (xs @ ys)
     = CA_outcome (CA_envelope ctx channel xs) channel (passes_end m xs) ys"
proof (induction xs arbitrary: ctx m)
  case Nil
  then show ?case by (simp add: passes_end_def)
next
  case (Cons p xs)
  then have p: "has_window p" and xs: "list_all has_window xs" by simp_all
  have e: "passes_end m (p # xs) = passes_end (pass_end p) xs"
    by (simp add: passes_end_def)
  have "CA_outcome ctx channel m ((p # xs) @ ys)
      = CA_outcome (CA_envelope ctx channel [p]) channel (pass_end p) (xs @ ys)"
    using CA_outcome_window [OF p, of ctx channel m "xs @ ys"] by simp
  also have "\<dots> = CA_outcome (CA_envelope (CA_envelope ctx channel [p]) channel xs) channel
                     (passes_end (pass_end p) xs) ys"
    by (rule Cons.IH [OF xs])
  finally show ?case by (simp add: CA_envelope_append e)
qed

lemma CA_outcome_append_bad:
  "\<not> list_all has_window xs \<Longrightarrow>
   CA_outcome ctx channel m (xs @ ys) = CA_outcome ctx channel m xs"
proof (induction xs arbitrary: ctx m)
  case Nil
  then show ?case by simp
next
  case (Cons p xs)
  show ?case
  proof (cases "has_window p")
    case True
    with Cons.prems have "\<not> list_all has_window xs" by simp
    from Cons.IH [OF this] show ?thesis
      using CA_outcome_window [OF True, of ctx channel m "xs @ ys"]
        CA_outcome_window [OF True, of ctx channel m xs] by simp
  next
    case False
    then show ?thesis
      using CA_outcome_no_window [of p ctx channel m "xs @ ys"]
        CA_outcome_no_window [of p ctx channel m xs] by simp
  qed
qed

lemma CA_outcome_good:
  "list_all has_window ps \<Longrightarrow>
   CA_outcome ctx channel m ps = (True, CA_envelope ctx channel ps, passes_end m ps)"
  using CA_outcome_append_good [of ps ctx channel m "[]"] by simp

lemma CA_training_address_loop_passes:
  "CA_passes ctx channel (map (Pair rank) [address..n - 1]) m = Inr ps \<Longrightarrow>
   CA_training_address_loop ctx channel rank n address m = Inr (CA_outcome ctx channel m ps)"
proof (induction k \<equiv> "nat (n - address)" arbitrary: ctx address m ps)
  case 0
  then have "\<not> address < n" by simp
  with 0 show ?case by (subst CA_training_address_loop.simps) (auto simp: upto_none)
next
  case (Suc k)
  then have lt: "address < n" by linarith
  have k: "k = nat (n - (address + 1))" using Suc.hyps(2) by linarith
  from Suc.prems lt have
    "CA_passes ctx channel ((rank, address) # map (Pair rank) [address + 1..n - 1]) m = Inr ps"
    by (simp add: upto_step)
  from CA_passes_Cons [OF this] obtain ms l r p ps' where
    s: "CA_scan ctx channel rank address m = Inr ms"
    and e: "find_eye_in_helper_arr ms UNSET_DELAY UNSET_DELAY (max_delay_taps ctx) = Inr (l, r)"
    and p: "p = \<lparr>pass_rank = rank, pass_address = address, pass_left = l, pass_right = r,
            pass_end = (if l = UNSET_DELAY \<or> r = UNSET_DELAY
                   then printf (CA_failed address) ms
                   else printf (CA_window address (r - max_delay_taps ctx)
                                  (l - max_delay_taps ctx)) ms)\<rparr>"
    and r: "CA_passes ctx channel (map (Pair rank) [address + 1..n - 1]) (pass_end p) = Inr ps'"
    and ps: "ps = p # ps'" by blast
  show ?case
  proof (cases "has_window p")
    case False
    then have u: "l = UNSET_DELAY \<or> r = UNSET_DELAY" by (simp add: has_window_def p)
    then have "CA_training_line ctx channel rank address m
        = Inr (False, ctx, pass_end p)"
      using s e by (simp add: CA_training_line_def p)
    then have "CA_training_address_loop ctx channel rank n address m
        = Inr (False, ctx, pass_end p)"
      using lt by (subst CA_training_address_loop.simps) simp
    with False show ?thesis by (simp add: ps CA_outcome_no_window)
  next
    case True
    then have u: "\<not> (l = UNSET_DELAY \<or> r = UNSET_DELAY)" by (simp add: has_window_def p)
    have w: "CA_training_window ctx channel address (r - max_delay_taps ctx)
               (l - max_delay_taps ctx) = CA_envelope ctx channel [p]"
      by (rule CA_training_window_pass) (simp_all add: p)
    have "CA_training_line ctx channel rank address m
        = Inr (True, CA_envelope ctx channel [p], pass_end p)"
      using s e u w by (simp add: CA_training_line_def p Let_def)
    then have "CA_training_address_loop ctx channel rank n address m
        = CA_training_address_loop (CA_envelope ctx channel [p]) channel rank n (address + 1)
            (pass_end p)"
      using lt by (subst CA_training_address_loop.simps) simp
    also have "\<dots> = Inr (CA_outcome (CA_envelope ctx channel [p]) channel (pass_end p) ps')"
      by (rule Suc.hyps(1) [OF k]) (simp add: CA_passes_envelope r)
    finally show ?thesis
      using CA_outcome_window [OF True, of ctx channel m ps'] by (simp add: ps)
  qed
qed

lemma CA_training_rank_loop_passes:
  "CA_passes ctx channel
     (concat (map (\<lambda>rank. map (Pair rank) [0..ca_line_count ctx - 1]) [rank..max_rank - 1])) m
     = Inr ps \<Longrightarrow>
   CA_training_rank_loop ctx channel max_rank rank m = Inr (CA_outcome ctx channel m ps)"
proof (induction k \<equiv> "nat (max_rank - rank)" arbitrary: ctx rank m ps)
  case 0
  then have "\<not> rank < max_rank" by simp
  with 0 show ?case by (subst CA_training_rank_loop.simps) (auto simp: upto_none)
next
  case (Suc k)
  then have lt: "rank < max_rank" by linarith
  have k: "k = nat (max_rank - (rank + 1))" using Suc.hyps(2) by linarith
  let ?rest = "concat (map (\<lambda>rank. map (Pair rank) [0..ca_line_count ctx - 1])
                 [rank + 1..max_rank - 1])"
  from Suc.prems lt have
    "CA_passes ctx channel (map (Pair rank) [0..ca_line_count ctx - 1] @ ?rest) m = Inr ps"
    by (simp add: upto_step)
  from CA_passes_append [OF this] obtain ps1 ps2 where
    1: "CA_passes ctx channel (map (Pair rank) [0..ca_line_count ctx - 1]) m = Inr ps1"
    and 2: "CA_passes ctx channel ?rest (passes_end m ps1) = Inr ps2"
    and ps: "ps = ps1 @ ps2" by blast
  have a: "CA_training_address_loop ctx channel rank (ca_line_count ctx) 0 m
      = Inr (CA_outcome ctx channel m ps1)"
    by (rule CA_training_address_loop_passes [OF 1])
  show ?case
  proof (cases "list_all has_window ps1")
    case False
    then have f: "\<not> fst (CA_outcome ctx channel m ps1)" by (simp add: CA_outcome_def)
    have "CA_training_rank_loop ctx channel max_rank rank m = Inr (CA_outcome ctx channel m ps1)"
      using lt a f
      by (subst CA_training_rank_loop.simps)
         (cases "CA_outcome ctx channel m ps1"; simp add: CA_outcome_def)
    with CA_outcome_append_bad [OF False, of ctx channel m ps2] show ?thesis
      by (simp add: ps)
  next
    case True
    let ?c = "CA_envelope ctx channel ps1"
    have o: "CA_outcome ctx channel m ps1 = (True, ?c, passes_end m ps1)"
      by (rule CA_outcome_good [OF True])
    have "CA_training_rank_loop ctx channel max_rank rank m
        = CA_training_rank_loop ?c channel max_rank (rank + 1) (passes_end m ps1)"
      using lt a o by (subst CA_training_rank_loop.simps) simp
    also have "\<dots> = Inr (CA_outcome ?c channel (passes_end m ps1) ps2)"
      by (rule Suc.hyps(1) [OF k]) (simp add: CA_passes_envelope 2)
    finally show ?thesis
      using CA_outcome_append_good [OF True, of ctx channel m ps2] by (simp add: ps)
  qed
qed

lemma CA_passes_total:
  "1 \<le> max_delay_taps ctx \<Longrightarrow> 2 * max_delay_taps ctx \<le> int (length (helper_arr m)) \<Longrightarrow>
   \<exists>ps. CA_passes ctx channel lines m = Inr ps
      \<and> map (\<lambda>p. (pass_rank p, pass_address p)) ps = lines"
proof (induction lines arbitrary: m)
  case Nil
  show ?case by simp
next
  case (Cons line lines)
  obtain rank address where line: "line = (rank, address)" by (cases line)
  have "post (\<lambda>_. False)
           (\<lambda>m'. helper_arr_it m' = 2 * max_delay_taps ctx
                 \<and> length (helper_arr m') = length (helper_arr m))
           (CA_scan ctx channel rank address m)"
    using Cons.prems by (intro CA_scan_post) simp_all
  then obtain ms where s: "CA_scan ctx channel rank address m = Inr ms"
    and len: "length (helper_arr ms) = length (helper_arr m)"
    by (cases "CA_scan ctx channel rank address m") (auto simp: post_def)
  from find_eye_total [of "max_delay_taps ctx" ms UNSET_DELAY UNSET_DELAY] Cons.prems len
  obtain l r where
    e: "find_eye_in_helper_arr ms UNSET_DELAY UNSET_DELAY (max_delay_taps ctx) = Inr (l, r)"
    by auto
  define M where "M = (if l = UNSET_DELAY \<or> r = UNSET_DELAY
                   then printf (CA_failed address) ms
                   else printf (CA_window address (r - max_delay_taps ctx)
                                  (l - max_delay_taps ctx)) ms)"
  have "length (helper_arr M) = length (helper_arr m)"
    using len by (simp add: M_def printf_def)
  with Cons.IH [of M] Cons.prems obtain ps where
    ps: "CA_passes ctx channel lines M = Inr ps"
      "map (\<lambda>p. (pass_rank p, pass_address p)) ps = lines" by auto
  show ?case using CA_passes_step [OF s e M_def, of lines] ps by (simp add: line)
qed


text \<open>
  C5. A run of \<^verbatim>\<open>CA_training\<close> on a channel whose envelopes come from
  \<^verbatim>\<open>CA_setup_array\<close>, with at least one tap and a helper array that holds the two sweeps
  of a scan. With the lines of the ranks gone through (one rank when the RCD is trained)
  taken in the order of the loops, and for each of them the scan of the line and the
  window that \<^verbatim>\<open>find_eye_in_helper_arr\<close> extracts from it: the run returns; up to the
  first line without a window, every line of every rank enters the envelope with
  \<open>max_delay_taps\<close> subtracted from both edges, so that on return, for each of the 14
  lines, \<^verbatim>\<open>delays[line][0]\<close> is the maximum of \<open>- max_delay_taps\<close> and the normalized right
  edges of the line and \<^verbatim>\<open>delays[line][1]\<close> the minimum of \<open>max_delay_taps\<close> and its
  normalized left edges; the first line without a window makes the run set \<^verbatim>\<open>*success\<close>
  to 0 and return at once, on the machine as the report of the failure left it, with the
  envelope of the lines before it; when every line of every rank has a window,
  \<^verbatim>\<open>*success\<close> is left as it was.
\<close>

theorem CA_training_envelope:
  assumes "1 \<le> max_delay_taps ctx"
    and "2 * max_delay_taps ctx \<le> int (length (helper_arr m))"
    and "0 \<le> channel" and "channel < channels ctx0"
    and "max_delay_taps ctx0 = max_delay_taps ctx"
    and "ca_delays ctx channel = ca_delays (CA_setup_array ctx0) channel"
  shows "\<exists>ps.
       CA_passes ctx channel (CA_lines ctx) m = Inr ps
     \<and> map (\<lambda>p. (pass_rank p, pass_address p)) ps = CA_lines ctx
     \<and> CA_training ctx channel success m
         = Inr (if list_all has_window ps then success else 0,
                CA_envelope ctx channel (takeWhile has_window ps),
                case dropWhile has_window ps of [] \<Rightarrow> passes_end m ps | p # _ \<Rightarrow> pass_end p)
     \<and> (\<forall>a. 0 \<le> a \<and> a < 14 \<longrightarrow>
            ca_delays (CA_envelope ctx channel (takeWhile has_window ps)) channel a 0
              = Max (insert (- max_delay_taps ctx)
                       (right_edges ctx a (takeWhile has_window ps)))
          \<and> ca_delays (CA_envelope ctx channel (takeWhile has_window ps)) channel a 1
              = Min (insert (max_delay_taps ctx)
                       (left_edges ctx a (takeWhile has_window ps))))"
proof -
  from CA_passes_total [OF assms(1,2), of channel "CA_lines ctx"] obtain ps where
    ps: "CA_passes ctx channel (CA_lines ctx) m = Inr ps"
      "map (\<lambda>p. (pass_rank p, pass_address p)) ps = CA_lines ctx" by blast
  have "CA_training_rank_loop ctx channel (CA_max_rank ctx) 0 m
      = Inr (CA_outcome ctx channel m ps)"
    using ps(1) unfolding CA_lines_def by (rule CA_training_rank_loop_passes)
  then have run: "CA_training ctx channel success m
         = Inr (if list_all has_window ps then success else 0,
                CA_envelope ctx channel (takeWhile has_window ps),
                case dropWhile has_window ps of [] \<Rightarrow> passes_end m ps | p # _ \<Rightarrow> pass_end p)"
    by (simp add: CA_training_def CA_outcome_def)
  have init: "ca_delays ctx channel a 0 = - max_delay_taps ctx
            \<and> ca_delays ctx channel a 1 = max_delay_taps ctx" if "0 \<le> a" "a < 14" for a
  proof -
    have "0 < channels ctx0" using assms(3,4) by linarith
    from CA_setup_array_result [OF this] assms(3,4) that
    have "ca_delays (CA_setup_array ctx0) channel a 0 = - max_delay_taps ctx0
        \<and> ca_delays (CA_setup_array ctx0) channel a 1 = max_delay_taps ctx0" by blast
    then show ?thesis by (simp add: assms(5,6))
  qed
  have env: "\<forall>a. 0 \<le> a \<and> a < 14 \<longrightarrow>
            ca_delays (CA_envelope ctx channel (takeWhile has_window ps)) channel a 0
              = Max (insert (- max_delay_taps ctx)
                       (right_edges ctx a (takeWhile has_window ps)))
          \<and> ca_delays (CA_envelope ctx channel (takeWhile has_window ps)) channel a 1
              = Min (insert (max_delay_taps ctx)
                       (left_edges ctx a (takeWhile has_window ps)))"
    using init by (simp add: CA_envelope_delays_def)
  from ps run env show ?thesis by blast
qed

theorem CA_training_envelope_witness:
  "1 \<le> max_delay_taps (CA_setup_array one_tap_ctx)
   \<and> 2 * max_delay_taps (CA_setup_array one_tap_ctx) \<le> int (length (helper_arr (mach_init [0, 0])))
   \<and> (0::int) \<le> 0 \<and> 0 < channels one_tap_ctx
   \<and> CA_lines (CA_setup_array one_tap_ctx) = [(0, 0), (1, 0)]
   \<and> (\<exists>ctx' m'. CA_training (CA_setup_array one_tap_ctx) 0 1 (mach_init [0, 0])
                     = Inr (1, ctx', m')
         \<and> ca_delays ctx' 0 0 0 = 0 \<and> ca_delays ctx' 0 0 1 = 1
         \<and> console m' = [Tap 0, Tap 1, CA_window 0 0 1, Tap 1, Tap 1, CA_window 0 (- 1) 1])"
proof -
  let ?c = "CA_setup_array one_tap_ctx"
  let ?M = "mach_init [0, 0]"
  let ?p1 = "\<lparr>pass_rank = 0, pass_address = 0, pass_left = 2, pass_right = 1,
            pass_end = (mach_init [0, 0])\<lparr>helper_arr := [0, 1], helper_arr_it := 2, tick := 2,
              dly := (\<lambda>_. 0)(CA_line 0 0 0 := 0),
              console := [Tap 0, Tap 1, CA_window 0 0 1]\<rparr>\<rparr>"
  let ?p2 = "\<lparr>pass_rank = 1, pass_address = 0, pass_left = 2, pass_right = 0,
            pass_end = (mach_init [0, 0])\<lparr>helper_arr := [1, 1], helper_arr_it := 2, tick := 4,
              dly := (\<lambda>_. 0)(CA_line 0 0 0 := 0, CA_line 0 1 0 := 0),
              console := [Tap 0, Tap 1, CA_window 0 0 1, Tap 1, Tap 1, CA_window 0 (- 1) 1]\<rparr>\<rparr>"
  have t0: "max_delay_taps one_tap_ctx = 1" "channels one_tap_ctx = 1"
    "ca_line_count one_tap_ctx = 1" "ranks one_tap_ctx = 2"
    "training_type one_tap_ctx = HOST_DRAM"
    by (simp_all add: one_tap_ctx_def sample_ctx_def)
  have fr: "?c = one_tap_ctx\<lparr>ca_delays := ca_delays ?c\<rparr>"
    using CA_setup_array_result [of one_tap_ctx] t0 by simp
  have t: "max_delay_taps ?c = 1" "ca_line_count ?c = 1" "ranks ?c = 2"
    "training_type ?c = HOST_DRAM"
    by (subst fr, simp add: t0)+
  have u: "[0..(0::int)] = [0]" "[0..(1::int)] = [0, 1]" by (simp_all add: upto_rec1)
  have lines: "CA_lines ?c = [(0, 0), (1, 0)]"
    by (simp add: CA_lines_def CA_max_rank_def t u)
  have h: "1 \<le> max_delay_taps ?c"
    "2 * max_delay_taps ?c \<le> int (length (helper_arr ?M))"
    "(0::int) \<le> 0" "0 < channels one_tap_ctx"
    "max_delay_taps one_tap_ctx = max_delay_taps ?c"
    "ca_delays ?c 0 = ca_delays ?c 0"
    by (simp_all add: t t0 mach_init_def)
  have "CA_passes one_tap_ctx 0 [(0, 0), (1, 0)] ?M = Inr [?p1, ?p2]"
    by (simp add: one_tap_ctx_def sample_ctx_def mach_init_def CA_scan_def CA_scan_single_def
        CA_scan_tap_def for_loopE.simps set_helper_arr_value_and_advance_def printf_def
        probe_def inc_dly_def rst_dly_def clear_helper_arr_def lnot_def Let_def
        find_eye_in_helper_arr_def find_eye_loop.simps rd_def UNSET_DELAY_def)
  then have ps: "CA_passes ?c 0 (CA_lines ?c) ?M = Inr [?p1, ?p2]"
    unfolding lines by (subst fr) (simp only: CA_passes_delays)
  have w: "has_window ?p1" "has_window ?p2"
    by (simp_all add: has_window_def UNSET_DELAY_def)
  from CA_training_envelope [OF h, of 1] obtain ps where
    1: "CA_passes ?c 0 (CA_lines ?c) ?M = Inr ps"
    and 2: "CA_training ?c 0 1 ?M
         = Inr (if list_all has_window ps then 1 else 0,
                CA_envelope ?c 0 (takeWhile has_window ps),
                case dropWhile has_window ps of [] \<Rightarrow> passes_end ?M ps | p # _ \<Rightarrow> pass_end p)"
    and 3: "\<forall>a. 0 \<le> a \<and> a < 14 \<longrightarrow>
            ca_delays (CA_envelope ?c 0 (takeWhile has_window ps)) 0 a 0
              = Max (insert (- max_delay_taps ?c) (right_edges ?c a (takeWhile has_window ps)))
          \<and> ca_delays (CA_envelope ?c 0 (takeWhile has_window ps)) 0 a 1
              = Min (insert (max_delay_taps ?c) (left_edges ?c a (takeWhile has_window ps)))"
    by blast
  from 1 ps have e: "ps = [?p1, ?p2]" by simp
  have re: "right_edges ?c 0 [?p1, ?p2] = {0, - 1}" "left_edges ?c 0 [?p1, ?p2] = {1}"
    by (simp_all add: edges_Cons t)
  have tw: "takeWhile has_window [?p1, ?p2] = [?p1, ?p2]"
    "dropWhile has_window [?p1, ?p2] = []" "list_all has_window [?p1, ?p2]"
    using w by simp_all
  have r: "CA_training ?c 0 1 ?M
      = Inr (1, CA_envelope ?c 0 [?p1, ?p2], pass_end ?p2)"
    using 2 w unfolding e by (simp add: passes_end_def)
  have d: "ca_delays (CA_envelope ?c 0 [?p1, ?p2]) 0 0 0 = 0"
    "ca_delays (CA_envelope ?c 0 [?p1, ?p2]) 0 0 1 = 1"
    using 3 [rule_format, of 0] w unfolding e by (simp_all add: re t)
  have c: "console (pass_end ?p2)
      = [Tap 0, Tap 1, CA_window 0 0 1, Tap 1, Tap 1, CA_window 0 (- 1) 1]"
    by simp
  from r d c have "\<exists>ctx' m'. CA_training ?c 0 1 ?M = Inr (1, ctx', m')
         \<and> ca_delays ctx' 0 0 0 = 0 \<and> ca_delays ctx' 0 0 1 = 1
         \<and> console m' = [Tap 0, Tap 1, CA_window 0 0 1, Tap 1, Tap 1, CA_window 0 (- 1) 1]"
    by blast
  with h(1,2,3,4) lines show ?thesis by blast
qed

section \<open>Clock finalization: midpoints, clock delay and adjusted delays\<close>

lemma for_loop_empty: "n \<le> a \<Longrightarrow> for_loop a n body s = s"
  by (subst for_loop.simps) simp

lemma for_loop_inv_max:
  assumes "I a s" "\<And>i s. a \<le> i \<Longrightarrow> i < n \<Longrightarrow> I i s \<Longrightarrow> I (i + 1) (body i s)"
  shows "I (max a n) (for_loop a n body s)"
proof (cases "a \<le> n")
  case True
  then have "max a n = n" by simp
  with for_loop_inv [of I a s n body] assms True show ?thesis by simp
next
  case False
  then have "max a n = a" "for_loop a n body s = s" by (simp_all add: for_loop_empty)
  with assms(1) show ?thesis by simp
qed

lemma finals_frame:
  assumes "c\<lparr>cs_final_delays := f, ca_final_delays := g\<rparr> = ctx"
  shows "channels c = channels ctx" "ranks c = ranks ctx" "modules c = modules ctx"
    "die_width c = die_width ctx" "max_delay_taps c = max_delay_taps ctx"
    "training_type c = training_type ctx" "cs_check c = cs_check ctx"
    "cs_invert c = cs_invert ctx" "cs_delays c = cs_delays ctx"
    "ca_check c = ca_check ctx" "ca_line_count c = ca_line_count ctx"
    "ca_delays c = ca_delays ctx"
  using assms by (cases c; cases ctx; simp)+

lemma upd2_apply: "upd2 a i j v i' j' = (if i' = i \<and> j' = j then v else a i' j')"
  by (simp add: upd2_def)

lemma min_step:
  assumes "\<forall>x\<in>M. (mn::int) \<le> x" "mn \<le> T" "mn = T \<or> mn \<in> M"
  shows "(\<forall>x\<in>insert t M. min mn t \<le> x) \<and> min mn t \<le> T
       \<and> (min mn t = T \<or> min mn t \<in> insert t M)"
  using assms by (auto simp: min_def)

lemma CS_CA_calculate_midpoints_result:
  assumes run: "CS_CA_calculate_midpoints ctx T mx0 channel = (c, mn, mx)"
    and lo: "lo = fst (channel_scope ctx channel)" and hi: "hi = snd (channel_scope ctx channel)"
  shows "c\<lparr>cs_final_delays := cs_final_delays ctx, ca_final_delays := ca_final_delays ctx\<rparr> = ctx
     \<and> (\<forall>ch rk. lo \<le> ch \<and> ch < hi \<and> 0 \<le> rk \<and> rk < ranks ctx \<longrightarrow>
            cs_final_delays c ch rk = cs_midpoint ctx ch rk \<and> mn \<le> cs_midpoint ctx ch rk)
     \<and> (\<forall>ch a. lo \<le> ch \<and> ch < hi \<and> 0 \<le> a \<and> a < ca_line_count ctx \<longrightarrow>
            ca_final_delays c ch a = ca_midpoint ctx ch a \<and> mn \<le> ca_midpoint ctx ch a)
     \<and> mn \<le> T
     \<and> (mn = T
        \<or> (\<exists>ch rk. lo \<le> ch \<and> ch < hi \<and> 0 \<le> rk \<and> rk < ranks ctx \<and> mn = cs_midpoint ctx ch rk)
        \<or> (\<exists>ch a. lo \<le> ch \<and> ch < hi \<and> 0 \<le> a \<and> a < ca_line_count ctx \<and> mn = ca_midpoint ctx ch a))"
proof -
  define A where "A j i = {(ch, rk). 0 \<le> rk \<and> rk < ranks ctx \<and> (lo \<le> ch \<and> ch < j \<or> ch = j \<and> rk < i)}"
    for j i :: int
  define B where "B j k = {(ch, a). 0 \<le> a \<and> a < ca_line_count ctx \<and> (lo \<le> ch \<and> ch < j \<or> ch = j \<and> a < k)}"
    for j k :: int
  define M where "M j i k = (\<lambda>(ch, rk). cs_midpoint ctx ch rk) ` A j i \<union> (\<lambda>(ch, a). ca_midpoint ctx ch a) ` B j k"
    for j i k :: int
  define P where "P j i k = (\<lambda>(c, mn, mx::int).
       c\<lparr>cs_final_delays := cs_final_delays ctx, ca_final_delays := ca_final_delays ctx\<rparr> = ctx
     \<and> (\<forall>(ch, rk)\<in>A j i. cs_final_delays c ch rk = cs_midpoint ctx ch rk)
     \<and> (\<forall>(ch, a)\<in>B j k. ca_final_delays c ch a = ca_midpoint ctx ch a)
     \<and> (\<forall>x\<in>M j i k. mn \<le> x) \<and> mn \<le> T \<and> (mn = T \<or> mn \<in> M j i k))"
    for j i k :: int
  have A_step: "A j (i + 1) = insert (j, i) (A j i)" if "0 \<le> i" "i < ranks ctx" for j i
    using that by (auto simp: A_def)
  have B_step: "B j (k + 1) = insert (j, k) (B j k)" if "0 \<le> k" "k < ca_line_count ctx" for j k
    using that by (auto simp: B_def)
  have A_next: "A j (max 0 (ranks ctx)) = A (j + 1) 0" if "lo \<le> j" for j
    using that by (auto simp: A_def)
  have B_next: "B j (max 0 (ca_line_count ctx)) = B (j + 1) 0" if "lo \<le> j" for j
    using that by (auto simp: B_def)
  have rank_step: "P j (i + 1) k (midpoint_rank j i s)"
    if p: "P j i k s" and i: "0 \<le> i" "i < ranks ctx" for j i k s
  proof -
    obtain c0 mn0 mx0 where s: "s = (c0, mn0, mx0)" by (cases s) auto
    from p have fr: "c0\<lparr>cs_final_delays := cs_final_delays ctx,
        ca_final_delays := ca_final_delays ctx\<rparr> = ctx"
      and a: "\<forall>(ch, rk)\<in>A j i. cs_final_delays c0 ch rk = cs_midpoint ctx ch rk"
      and b: "\<forall>(ch, a)\<in>B j k. ca_final_delays c0 ch a = ca_midpoint ctx ch a"
      and m: "\<forall>x\<in>M j i k. mn0 \<le> x" "mn0 \<le> T" "mn0 = T \<or> mn0 \<in> M j i k"
      by (simp_all add: P_def s)
    note f = finals_frame [OF fr]
    let ?t = "cs_midpoint ctx j i"
    let ?c = "c0\<lparr>cs_final_delays := upd2 (cs_final_delays c0) j i ?t\<rparr>"
    have r: "midpoint_rank j i s = (?c, min mn0 ?t, max mx0 ?t)"
      by (simp add: midpoint_rank_def s Let_def cs_midpoint_def f)
    have fr': "?c\<lparr>cs_final_delays := cs_final_delays ctx, ca_final_delays := ca_final_delays ctx\<rparr> = ctx"
      using fr by simp
    have a': "\<forall>(ch, rk)\<in>A j (i + 1). cs_final_delays ?c ch rk = cs_midpoint ctx ch rk"
      using a by (auto simp: A_step [OF i] upd2_apply)
    have b': "\<forall>(ch, a)\<in>B j k. ca_final_delays ?c ch a = ca_midpoint ctx ch a"
      using b by simp
    have Ms: "M j (i + 1) k = insert ?t (M j i k)"
      by (simp add: M_def A_step [OF i])
    have m': "(\<forall>x\<in>M j (i + 1) k. min mn0 ?t \<le> x) \<and> min mn0 ?t \<le> T
       \<and> (min mn0 ?t = T \<or> min mn0 ?t \<in> M j (i + 1) k)"
      unfolding Ms by (rule min_step [OF m])
    from fr' a' b' m' show ?thesis unfolding r P_def by simp
  qed
  have line_step: "P j i (k + 1) (midpoint_line j k s)"
    if p: "P j i k s" and k: "0 \<le> k" "k < ca_line_count ctx" for j i k s
  proof -
    obtain c0 mn0 mx0 where s: "s = (c0, mn0, mx0)" by (cases s) auto
    from p have fr: "c0\<lparr>cs_final_delays := cs_final_delays ctx,
        ca_final_delays := ca_final_delays ctx\<rparr> = ctx"
      and a: "\<forall>(ch, rk)\<in>A j i. cs_final_delays c0 ch rk = cs_midpoint ctx ch rk"
      and b: "\<forall>(ch, a)\<in>B j k. ca_final_delays c0 ch a = ca_midpoint ctx ch a"
      and m: "\<forall>x\<in>M j i k. mn0 \<le> x" "mn0 \<le> T" "mn0 = T \<or> mn0 \<in> M j i k"
      by (simp_all add: P_def s)
    note f = finals_frame [OF fr]
    let ?t = "ca_midpoint ctx j k"
    let ?c = "c0\<lparr>ca_final_delays := upd2 (ca_final_delays c0) j k ?t\<rparr>"
    have r: "midpoint_line j k s = (?c, min mn0 ?t, max mx0 ?t)"
      by (simp add: midpoint_line_def s Let_def ca_midpoint_def f)
    have fr': "?c\<lparr>cs_final_delays := cs_final_delays ctx, ca_final_delays := ca_final_delays ctx\<rparr> = ctx"
      using fr by simp
    have a': "\<forall>(ch, rk)\<in>A j i. cs_final_delays ?c ch rk = cs_midpoint ctx ch rk"
      using a by simp
    have b': "\<forall>(ch, a)\<in>B j (k + 1). ca_final_delays ?c ch a = ca_midpoint ctx ch a"
      using b by (auto simp: B_step [OF k] upd2_apply)
    have Ms: "M j i (k + 1) = insert ?t (M j i k)"
      by (simp add: M_def B_step [OF k])
    have m': "(\<forall>x\<in>M j i (k + 1). min mn0 ?t \<le> x) \<and> min mn0 ?t \<le> T
       \<and> (min mn0 ?t = T \<or> min mn0 ?t \<in> M j i (k + 1))"
      unfolding Ms by (rule min_step [OF m])
    from fr' a' b' m' show ?thesis unfolding r P_def by simp
  qed
  have P_ranks: "ranks (fst s) = ranks ctx \<and> ca_line_count (fst s) = ca_line_count ctx"
    if "P j i k s" for j i k s
  proof -
    from that have "(fst s)\<lparr>cs_final_delays := cs_final_delays ctx,
        ca_final_delays := ca_final_delays ctx\<rparr> = ctx"
      by (cases s) (simp add: P_def)
    from finals_frame [OF this] show ?thesis by simp
  qed
  have chan_step: "P (j + 1) 0 0
      (let s = for_loop 0 (ranks (fst s)) (midpoint_rank j) s
       in for_loop 0 (ca_line_count (fst s)) (midpoint_line j) s)"
    if p: "P j 0 0 s" and j: "lo \<le> j" for j s
  proof -
    define s1 where "s1 = for_loop 0 (ranks ctx) (midpoint_rank j) s"
    have q: "P j (max 0 (ranks ctx)) 0 s1"
      unfolding s1_def
      by (rule for_loop_inv_max [where I = "\<lambda>i. P j i 0"]) (use p rank_step in auto)
    define s2 where "s2 = for_loop 0 (ca_line_count ctx) (midpoint_line j) s1"
    have "P j (max 0 (ranks ctx)) (max 0 (ca_line_count ctx)) s2"
      unfolding s2_def
      by (rule for_loop_inv_max [where I = "\<lambda>k. P j (max 0 (ranks ctx)) k"]) (use q line_step in auto)
    then have "P (j + 1) 0 0 s2"
      by (simp add: P_def M_def A_next [OF j] B_next [OF j])
    then show ?thesis
      using P_ranks [OF p] P_ranks [OF q] by (simp add: Let_def s1_def s2_def)
  qed
  have P0: "P lo 0 0 (ctx, T, mx0)"
    by (auto simp: P_def M_def A_def B_def)
  have "P (max lo hi) 0 0 (CS_CA_calculate_midpoints ctx T mx0 channel)"
    unfolding CS_CA_calculate_midpoints_def lo hi case_prod_beta Let_def
    using P0 chan_step
    by (intro for_loop_inv_max [where I = "\<lambda>j. P j 0 0"]) (auto simp: lo hi Let_def)
  then have fin: "P (max lo hi) 0 0 (c, mn, mx)" by (simp add: run)
  have Amax: "A (max lo hi) 0 = {(ch, rk). 0 \<le> rk \<and> rk < ranks ctx \<and> lo \<le> ch \<and> ch < hi}"
    by (auto simp: A_def)
  have Bmax: "B (max lo hi) 0 = {(ch, a). 0 \<le> a \<and> a < ca_line_count ctx \<and> lo \<le> ch \<and> ch < hi}"
    by (auto simp: B_def)
  from fin show ?thesis
    unfolding P_def M_def Amax Bmax by (simp add: image_iff Ball_def Bex_def) blast
qed


lemma inc_dly_funpow_frame:
  "helper_arr ((inc_dly l ^^ k) m) = helper_arr m
   \<and> (l' \<noteq> l \<longrightarrow> dly ((inc_dly l ^^ k) m) l' = dly m l')"
  by (induction k) (simp_all add: inc_dly_def)

lemma set_dly_frame:
  "helper_arr (set_dly l n m) = helper_arr m
   \<and> (l' \<noteq> l \<longrightarrow> dly (set_dly l n m) l' = dly m l')"
  using inc_dly_funpow_frame [of "nat n" l "rst_dly l m" l']
  by (simp add: set_dly_def rst_dly_def)

lemma CS_CA_set_adjusted_delays_result:
  assumes run: "CS_CA_set_adjusted_delays ctx off channel m = (c, m')"
    and lo: "lo = fst (channel_scope ctx channel)" and hi: "hi = snd (channel_scope ctx channel)"
  shows "c\<lparr>cs_final_delays := cs_final_delays ctx, ca_final_delays := ca_final_delays ctx\<rparr> = ctx
     \<and> (\<forall>ch rk. lo \<le> ch \<and> ch < hi \<and> 0 \<le> rk \<and> rk < ranks ctx \<longrightarrow>
            cs_final_delays c ch rk = cs_final_delays ctx ch rk - off)
     \<and> (\<forall>ch a. lo \<le> ch \<and> ch < hi \<and> 0 \<le> a \<and> a < ca_line_count ctx \<longrightarrow>
            ca_final_delays c ch a = ca_final_delays ctx ch a - off)
     \<and> helper_arr m' = helper_arr m
     \<and> (\<forall>a b d. dly m' (CK_line a b d) = dly m (CK_line a b d))"
proof -
  define A where "A j i = {(ch, rk). 0 \<le> rk \<and> rk < ranks ctx \<and> (lo \<le> ch \<and> ch < j \<or> ch = j \<and> rk < i)}"
    for j i :: int
  define B where "B j k = {(ch, a). 0 \<le> a \<and> a < ca_line_count ctx \<and> (lo \<le> ch \<and> ch < j \<or> ch = j \<and> a < k)}"
    for j k :: int
  define P where "P j i k = (\<lambda>(c, s::mach).
       c\<lparr>cs_final_delays := cs_final_delays ctx, ca_final_delays := ca_final_delays ctx\<rparr> = ctx
     \<and> (\<forall>ch rk. cs_final_delays c ch rk
            = (if (ch, rk) \<in> A j i then cs_final_delays ctx ch rk - off else cs_final_delays ctx ch rk))
     \<and> (\<forall>ch a. ca_final_delays c ch a
            = (if (ch, a) \<in> B j k then ca_final_delays ctx ch a - off else ca_final_delays ctx ch a))
     \<and> helper_arr s = helper_arr m
     \<and> (\<forall>a b d. dly s (CK_line a b d) = dly m (CK_line a b d)))"
    for j i k :: int
  have A_step: "A j (i + 1) = insert (j, i) (A j i)" if "0 \<le> i" "i < ranks ctx" for j i
    using that by (auto simp: A_def)
  have A_new: "(j, i) \<notin> A j i" if "lo \<le> j" for j i
    using that by (auto simp: A_def)
  have B_step: "B j (k + 1) = insert (j, k) (B j k)" if "0 \<le> k" "k < ca_line_count ctx" for j k
    using that by (auto simp: B_def)
  have B_new: "(j, k) \<notin> B j k" if "lo \<le> j" for j k
    using that by (auto simp: B_def)
  have A_next: "A j (max 0 (ranks ctx)) = A (j + 1) 0" if "lo \<le> j" for j
    using that by (auto simp: A_def)
  have B_next: "B j (max 0 (ca_line_count ctx)) = B (j + 1) 0" if "lo \<le> j" for j
    using that by (auto simp: B_def)
  have rank_step: "P j (i + 1) k (adjust_rank off j i s)"
    if p: "P j i k s" and i: "0 \<le> i" "i < ranks ctx" and j: "lo \<le> j" for j i k s
  proof -
    obtain c0 m0 where s: "s = (c0, m0)" by (cases s) auto
    from p have fr: "c0\<lparr>cs_final_delays := cs_final_delays ctx,
        ca_final_delays := ca_final_delays ctx\<rparr> = ctx"
      and a: "\<forall>ch rk. cs_final_delays c0 ch rk
            = (if (ch, rk) \<in> A j i then cs_final_delays ctx ch rk - off else cs_final_delays ctx ch rk)"
      and b: "\<forall>ch a. ca_final_delays c0 ch a
            = (if (ch, a) \<in> B j k then ca_final_delays ctx ch a - off else ca_final_delays ctx ch a)"
      and h: "helper_arr m0 = helper_arr m"
      and d: "\<forall>a b d. dly m0 (CK_line a b d) = dly m (CK_line a b d)"
      by (simp_all add: P_def s)
    let ?v = "cs_final_delays c0 j i - off"
    let ?c = "c0\<lparr>cs_final_delays := upd2 (cs_final_delays c0) j i ?v\<rparr>"
    let ?m = "set_dly (CS_line j i 0) ?v m0"
    have r: "adjust_rank off j i s = (?c, ?m)"
      by (simp add: adjust_rank_def s Let_def upd2_apply)
    have fr': "?c\<lparr>cs_final_delays := cs_final_delays ctx, ca_final_delays := ca_final_delays ctx\<rparr> = ctx"
      using fr by simp
    have v: "?v = cs_final_delays ctx j i - off" using a A_new [OF j, of i] by simp
    have a': "\<forall>ch rk. cs_final_delays ?c ch rk
            = (if (ch, rk) \<in> A j (i + 1) then cs_final_delays ctx ch rk - off
               else cs_final_delays ctx ch rk)"
      using a v by (auto simp: A_step [OF i] upd2_apply)
    have b': "\<forall>ch a. ca_final_delays ?c ch a
            = (if (ch, a) \<in> B j k then ca_final_delays ctx ch a - off else ca_final_delays ctx ch a)"
      using b by simp
    have h': "helper_arr ?m = helper_arr m" using h by (simp add: set_dly_frame)
    have d': "\<forall>a b d. dly ?m (CK_line a b d) = dly m (CK_line a b d)"
      using d by (simp add: set_dly_frame)
    from fr' a' b' h' d' show ?thesis unfolding r P_def by simp
  qed
  have line_step: "P j i (k + 1) (adjust_line off j k s)"
    if p: "P j i k s" and k: "0 \<le> k" "k < ca_line_count ctx" and j: "lo \<le> j" for j i k s
  proof -
    obtain c0 m0 where s: "s = (c0, m0)" by (cases s) auto
    from p have fr: "c0\<lparr>cs_final_delays := cs_final_delays ctx,
        ca_final_delays := ca_final_delays ctx\<rparr> = ctx"
      and a: "\<forall>ch rk. cs_final_delays c0 ch rk
            = (if (ch, rk) \<in> A j i then cs_final_delays ctx ch rk - off else cs_final_delays ctx ch rk)"
      and b: "\<forall>ch a. ca_final_delays c0 ch a
            = (if (ch, a) \<in> B j k then ca_final_delays ctx ch a - off else ca_final_delays ctx ch a)"
      and h: "helper_arr m0 = helper_arr m"
      and d: "\<forall>a b d. dly m0 (CK_line a b d) = dly m (CK_line a b d)"
      by (simp_all add: P_def s)
    let ?v = "ca_final_delays c0 j k - off"
    let ?c = "c0\<lparr>ca_final_delays := upd2 (ca_final_delays c0) j k ?v\<rparr>"
    let ?m = "set_dly (CA_line j 0 k) ?v m0"
    have r: "adjust_line off j k s = (?c, ?m)"
      by (simp add: adjust_line_def s Let_def upd2_apply)
    have fr': "?c\<lparr>cs_final_delays := cs_final_delays ctx, ca_final_delays := ca_final_delays ctx\<rparr> = ctx"
      using fr by simp
    have v: "?v = ca_final_delays ctx j k - off" using b B_new [OF j, of k] by simp
    have a': "\<forall>ch rk. cs_final_delays ?c ch rk
            = (if (ch, rk) \<in> A j i then cs_final_delays ctx ch rk - off
               else cs_final_delays ctx ch rk)"
      using a by simp
    have b': "\<forall>ch a. ca_final_delays ?c ch a
            = (if (ch, a) \<in> B j (k + 1) then ca_final_delays ctx ch a - off
               else ca_final_delays ctx ch a)"
      using b v by (auto simp: B_step [OF k] upd2_apply)
    have h': "helper_arr ?m = helper_arr m" using h by (simp add: set_dly_frame)
    have d': "\<forall>a b d. dly ?m (CK_line a b d) = dly m (CK_line a b d)"
      using d by (simp add: set_dly_frame)
    from fr' a' b' h' d' show ?thesis unfolding r P_def by simp
  qed
  have P_ranks: "ranks (fst s) = ranks ctx \<and> ca_line_count (fst s) = ca_line_count ctx"
    if "P j i k s" for j i k s
  proof -
    from that have "(fst s)\<lparr>cs_final_delays := cs_final_delays ctx,
        ca_final_delays := ca_final_delays ctx\<rparr> = ctx"
      by (cases s) (simp add: P_def)
    from finals_frame [OF this] show ?thesis by simp
  qed
  have chan_step: "P (j + 1) 0 0
      (let s = for_loop 0 (ranks (fst s)) (adjust_rank off j) s
       in for_loop 0 (ca_line_count (fst s)) (adjust_line off j) s)"
    if p: "P j 0 0 s" and j: "lo \<le> j" for j s
  proof -
    define s1 where "s1 = for_loop 0 (ranks ctx) (adjust_rank off j) s"
    have q: "P j (max 0 (ranks ctx)) 0 s1"
      unfolding s1_def
      by (rule for_loop_inv_max [where I = "\<lambda>i. P j i 0"]) (use p rank_step j in auto)
    define s2 where "s2 = for_loop 0 (ca_line_count ctx) (adjust_line off j) s1"
    have "P j (max 0 (ranks ctx)) (max 0 (ca_line_count ctx)) s2"
      unfolding s2_def
      by (rule for_loop_inv_max [where I = "\<lambda>k. P j (max 0 (ranks ctx)) k"])
         (use q line_step j in auto)
    then have "P (j + 1) 0 0 s2"
      by (simp add: P_def A_next [OF j] B_next [OF j])
    then show ?thesis
      using P_ranks [OF p] P_ranks [OF q] by (simp add: Let_def s1_def s2_def)
  qed
  have P0: "P lo 0 0 (ctx, m)"
    by (auto simp: P_def A_def B_def)
  have "P (max lo hi) 0 0 (CS_CA_set_adjusted_delays ctx off channel m)"
    unfolding CS_CA_set_adjusted_delays_def lo hi case_prod_beta Let_def
    using P0 chan_step
    by (intro for_loop_inv_max [where I = "\<lambda>j. P j 0 0"]) (auto simp: lo hi Let_def)
  then have fin: "P (max lo hi) 0 0 (c, m')" by (simp add: run)
  have Amax: "A (max lo hi) 0 = {(ch, rk). 0 \<le> rk \<and> rk < ranks ctx \<and> lo \<le> ch \<and> ch < hi}"
    by (auto simp: A_def)
  have Bmax: "B (max lo hi) 0 = {(ch, a). 0 \<le> a \<and> a < ca_line_count ctx \<and> lo \<le> ch \<and> ch < hi}"
    by (auto simp: B_def)
  from fin show ?thesis
    unfolding P_def Amax Bmax by simp
qed


lemma for_loopE_inv:
  assumes "I s" "\<And>i s. a \<le> i \<Longrightarrow> i < n \<Longrightarrow> I s \<Longrightarrow> post Q I (body i s)"
  shows "post Q I (for_loopE a n body s)"
proof (cases "a \<le> n")
  case True
  with assms show ?thesis by (intro for_loopE_post [where I = "\<lambda>_. I"]) simp_all
next
  case False
  then show ?thesis using assms(1) by (subst for_loopE.simps) simp
qed

lemma post_True_iff: "post (\<lambda>_. True) P r \<longleftrightarrow> (\<forall>x. r = Inr x \<longrightarrow> P x)"
  by (cases r) simp_all

lemma CS_scan_tap_clock:
  "CS_scan_tap c ch rk s i m = Inr m' \<Longrightarrow> dly m' (CK_line a b d) = dly m (CK_line a b d)"
  using cs_tap_mask_frame [of c ch rk s m]
  by (auto simp: CS_scan_tap_def case_prod_beta bindE_eq_Inr set_helper_arr_value_and_advance_def
        printf_def inc_dly_def split: if_splits)

lemma CS_scan_single_clock:
  assumes "CS_scan_single c ch rk s m = Inr m'"
  shows "dly m' (CK_line a b d) = dly m (CK_line a b d)"
proof -
  have "post (\<lambda>_. True) (\<lambda>x. dly x (CK_line a b d) = dly m (CK_line a b d))
          (for_loopE 0 (max_delay_taps c) (CS_scan_tap c ch rk s) m)"
  proof (rule for_loopE_inv)
    show "dly m (CK_line a b d) = dly m (CK_line a b d)" by simp
  next
    fix i and x :: mach
    assume "dly x (CK_line a b d) = dly m (CK_line a b d)"
    then show "post (\<lambda>_. True) (\<lambda>x. dly x (CK_line a b d) = dly m (CK_line a b d))
        (CS_scan_tap c ch rk s i x)"
      using CS_scan_tap_clock [of c ch rk s i x] by (simp add: post_True_iff)
  qed
  with assms show ?thesis
    by (auto simp: CS_scan_single_def bindE_eq_Inr post_True_iff rst_dly_def)
qed

lemma CA_scan_single_clock:
  assumes "CA_scan_single c ch rk ad sb m = Inr m'"
  shows "dly m' (CK_line a b d) = dly m (CK_line a b d)"
proof -
  have "post (\<lambda>_. True) (\<lambda>x. dly x (CK_line a b d) = dly m (CK_line a b d))
          (for_loopE 0 (max_delay_taps c) (CA_scan_tap c ch rk ad sb)
             (rst_dly (CA_line ch rk ad) m))"
  proof (rule for_loopE_inv)
    show "dly (rst_dly (CA_line ch rk ad) m) (CK_line a b d) = dly m (CK_line a b d)"
      by (simp add: rst_dly_def)
  next
    fix i and x :: mach
    assume "dly x (CK_line a b d) = dly m (CK_line a b d)"
    then show "post (\<lambda>_. True) (\<lambda>x. dly x (CK_line a b d) = dly m (CK_line a b d))
        (CA_scan_tap c ch rk ad sb i x)"
      by (auto simp: post_True_iff CA_scan_tap_def Let_def bindE_eq_Inr
            set_helper_arr_value_and_advance_def printf_def probe_def inc_dly_def
            split: if_splits)
  qed
  with assms show ?thesis
    by (auto simp: CA_scan_single_def bindE_eq_Inr post_True_iff rst_dly_def)
qed

lemma CA_scan_clock:
  assumes "CA_scan c ch rk ad m = Inr m'"
  shows "dly m' (CK_line a b d) = dly m (CK_line a b d)"
proof -
  from assms obtain m1 where
    1: "CA_scan_single c ch rk ad 1 (rst_dly (CA_line ch rk ad) (clear_helper_arr m)) = Inr m1"
    and 2: "CA_scan_single c ch rk ad 0 m1 = Inr m'"
    by (auto simp: CA_scan_def Let_def bindE_eq_Inr)
  from CA_scan_single_clock [OF 2, of a b d] CA_scan_single_clock [OF 1, of a b d]
  show ?thesis by (simp add: rst_dly_def clear_helper_arr_def)
qed

lemma CS_scan_frame:
  assumes "CS_scan c ch rk m = Inr (sub, c', m')"
  shows "c'\<lparr>cs_invert := cs_invert c\<rparr> = c \<and> dly m' (CK_line a b d) = dly m (CK_line a b d)"
proof -
  let ?c1 = "c\<lparr>cs_invert := (cs_invert c)(ch := 1)\<rparr>"
  let ?m0 = "rst_dly (CS_line ch rk 0) ((clear_modules (clear_helper_arr m))\<lparr>seen_working := False\<rparr>)"
  have k0: "dly ?m0 (CK_line a b d) = dly m (CK_line a b d)"
    by (simp add: rst_dly_def clear_modules_def clear_helper_arr_def)
  have clr: "dly (clear_helper_arr x) = dly x" "dly (clear_modules x) = dly x" for x
    by (simp_all add: clear_helper_arr_def clear_modules_def)
  from assms obtain m1 where
    1: "CS_scan_single c ch rk (cs_invert c ch) ?m0 = Inr m1"
    and r1: "bindE (cs_change_polarization c m1) (\<lambda>change.
         bindE (if change
                then bindE (CS_scan_single ?c1 ch rk 1 (clear_modules (clear_helper_arr m1)))
                       (\<lambda>m. Inr (1, ?c1, m))
                else Inr (cs_invert c ch, c, m1)) (\<lambda>(shift, ctx, m).
         bindE (one_in_helper_arr m (max_delay_taps ctx)) (\<lambda>one_in.
           if one_in = - 1 then
             bindE (CS_scan_single ctx ch rk (lnot shift) (clear_helper_arr m)) (\<lambda>m.
             bindE (CS_scan_single ctx ch rk (lnot (lnot shift)) m) (\<lambda>m.
             Inr (True, ctx, m)))
           else if one_in = 1 then
             bindE (CS_scan_single ctx ch rk (lnot shift) m) (\<lambda>m.
             Inr (False, ctx, m))
           else if one_in = 0 then
             bindE (CS_scan_single ctx ch rk (lnot shift)
                      (clear_modules (clear_helper_arr m))) (\<lambda>m.
             bindE (CS_scan_single ctx ch rk shift m) (\<lambda>m.
             Inr (False, ctx, m)))
           else Inr (False, ctx, m)))) = Inr (sub, c', m')"
    unfolding CS_scan_def Let_def by (cases "CS_scan_single c ch rk (cs_invert c ch) ?m0") auto
  from r1 obtain change where
    r2: "bindE (if change
                then bindE (CS_scan_single ?c1 ch rk 1 (clear_modules (clear_helper_arr m1)))
                       (\<lambda>m. Inr (1, ?c1, m))
                else Inr (cs_invert c ch, c, m1)) (\<lambda>(shift, ctx, m).
         bindE (one_in_helper_arr m (max_delay_taps ctx)) (\<lambda>one_in.
           if one_in = - 1 then
             bindE (CS_scan_single ctx ch rk (lnot shift) (clear_helper_arr m)) (\<lambda>m.
             bindE (CS_scan_single ctx ch rk (lnot (lnot shift)) m) (\<lambda>m.
             Inr (True, ctx, m)))
           else if one_in = 1 then
             bindE (CS_scan_single ctx ch rk (lnot shift) m) (\<lambda>m.
             Inr (False, ctx, m))
           else if one_in = 0 then
             bindE (CS_scan_single ctx ch rk (lnot shift)
                      (clear_modules (clear_helper_arr m))) (\<lambda>m.
             bindE (CS_scan_single ctx ch rk shift m) (\<lambda>m.
             Inr (False, ctx, m)))
           else Inr (False, ctx, m))) = Inr (sub, c', m')"
    by (cases "cs_change_polarization c m1") auto
  from r2 obtain s2 c2 m2 where
    2: "(if change
             then bindE (CS_scan_single ?c1 ch rk 1 (clear_modules (clear_helper_arr m1)))
                    (\<lambda>m. Inr (1, ?c1, m))
             else Inr (cs_invert c ch, c, m1)) = Inr (s2, c2, m2)"
    and r3: "bindE (one_in_helper_arr m2 (max_delay_taps c2)) (\<lambda>one_in.
           if one_in = - 1 then
             bindE (CS_scan_single c2 ch rk (lnot s2) (clear_helper_arr m2)) (\<lambda>m.
             bindE (CS_scan_single c2 ch rk (lnot (lnot s2)) m) (\<lambda>m.
             Inr (True, c2, m)))
           else if one_in = 1 then
             bindE (CS_scan_single c2 ch rk (lnot s2) m2) (\<lambda>m.
             Inr (False, c2, m))
           else if one_in = 0 then
             bindE (CS_scan_single c2 ch rk (lnot s2)
                      (clear_modules (clear_helper_arr m2))) (\<lambda>m.
             bindE (CS_scan_single c2 ch rk s2 m) (\<lambda>m.
             Inr (False, c2, m)))
           else Inr (False, c2, m2)) = Inr (sub, c', m')"
    by (cases "if change
             then bindE (CS_scan_single ?c1 ch rk 1 (clear_modules (clear_helper_arr m1)))
                    (\<lambda>m. Inr (1, ?c1, m))
             else Inr (cs_invert c ch, c, m1)") auto
  from r3 obtain one_in where o: "one_in_helper_arr m2 (max_delay_taps c2) = Inr one_in"
    by (cases "one_in_helper_arr m2 (max_delay_taps c2)") auto
  have 3: "(if one_in = - 1 then
             bindE (CS_scan_single c2 ch rk (lnot s2) (clear_helper_arr m2)) (\<lambda>m.
             bindE (CS_scan_single c2 ch rk (lnot (lnot s2)) m) (\<lambda>m.
             Inr (True, c2, m)))
           else if one_in = 1 then
             bindE (CS_scan_single c2 ch rk (lnot s2) m2) (\<lambda>m.
             Inr (False, c2, m))
           else if one_in = 0 then
             bindE (CS_scan_single c2 ch rk (lnot s2)
                      (clear_modules (clear_helper_arr m2))) (\<lambda>m.
             bindE (CS_scan_single c2 ch rk s2 m) (\<lambda>m.
             Inr (False, c2, m)))
           else Inr (False, c2, m2)) = Inr (sub, c', m')"
    using r3 by (simp add: o)
  have k1: "dly m1 (CK_line a b d) = dly m (CK_line a b d)"
    using CS_scan_single_clock [OF 1, of a b d] k0 by simp
  have c2: "c2\<lparr>cs_invert := cs_invert c\<rparr> = c"
    and k2: "dly m2 (CK_line a b d) = dly m (CK_line a b d)"
    using 2 k1 CS_scan_single_clock [of ?c1 ch rk 1 "clear_modules (clear_helper_arr m1)" _ a b d]
    by (auto simp: bindE_eq_Inr clr split: if_splits)
  have "c' = c2 \<and> dly m' (CK_line a b d) = dly m2 (CK_line a b d)"
    using 3 CS_scan_single_clock [of c2 ch rk _ _ _ a b d]
    by (auto simp: bindE_eq_Inr clr split: if_splits)
  with c2 k2 show ?thesis by simp
qed


lemma invert_frame:
  assumes "c\<lparr>cs_invert := f\<rparr> = ctx"
  shows "channels c = channels ctx" "ranks c = ranks ctx" "modules c = modules ctx"
    "max_delay_taps c = max_delay_taps ctx" "training_type c = training_type ctx"
    "ca_line_count c = ca_line_count ctx"
    "cs_final_delays c = cs_final_delays ctx" "ca_final_delays c = ca_final_delays ctx"
  using assms by (cases c; cases ctx; simp)+

lemma invert_frame_trans:
  assumes "c'\<lparr>cs_invert := cs_invert c\<rparr> = c" and "c\<lparr>cs_invert := f\<rparr> = ctx"
  shows "c'\<lparr>cs_invert := f\<rparr> = ctx"
proof -
  have "(c'\<lparr>cs_invert := cs_invert c\<rparr>)\<lparr>cs_invert := f\<rparr> = c\<lparr>cs_invert := f\<rparr>"
    by (simp only: assms(1))
  with assms(2) show ?thesis by simp
qed

lemma CS_CA_rescan_post:
  assumes t: "1 \<le> max_delay_taps ctx"
    and len: "2 * max_delay_taps ctx \<le> int (length (helper_arr m))"
    and mods: "0 \<le> modules ctx" "modules ctx \<le> 32"
  shows "post (\<lambda>_. False)
           (\<lambda>(c, m'). c\<lparr>cs_invert := cs_invert ctx\<rparr> = ctx
               \<and> length (helper_arr m') = length (helper_arr m)
               \<and> (\<forall>a b d. dly m' (CK_line a b d) = dly m (CK_line a b d)))
           (CS_CA_rescan ctx ck channel m)"
proof -
  define J where "J = (\<lambda>(c, x::mach). c\<lparr>cs_invert := cs_invert ctx\<rparr> = ctx
               \<and> length (helper_arr x) = length (helper_arr m)
               \<and> (\<forall>a b d. dly x (CK_line a b d) = dly m (CK_line a b d)))"
  have cs_step: "post (\<lambda>_. False) J (rescan_rank_cs ch rk s)" if "J s" for ch rk s
  proof -
    obtain c x where s: "s = (c, x)" by (cases s) auto
    from that have fr: "c\<lparr>cs_invert := cs_invert ctx\<rparr> = ctx"
      and l: "length (helper_arr x) = length (helper_arr m)"
      and k: "\<forall>a b d. dly x (CK_line a b d) = dly m (CK_line a b d)"
      by (simp_all add: J_def s)
    note f = invert_frame [OF fr]
    have p: "post (shift_fault c)
           (\<lambda>(sub, ctx', m'). helper_arr_it m' = 2 * max_delay_taps c
                 \<and> length (helper_arr m') = length (helper_arr x))
           (CS_scan c ch rk x)"
      using t len by (intro CS_scan_post) (simp_all add: f l)
    show ?thesis
    proof (cases "CS_scan c ch rk x")
      case (Inl e)
      with p have "shift_fault c e" by simp
      with mods f show ?thesis by (simp add: shift_fault_def)
    next
      case (Inr r)
      obtain sub c' m' where r: "r = (sub, c', m')" by (cases r) auto
      from p Inr r have l': "length (helper_arr m') = length (helper_arr x)" by simp
      from CS_scan_frame [of c ch rk x sub c' m'] Inr r
      have fr': "c'\<lparr>cs_invert := cs_invert c\<rparr> = c"
        and k': "\<forall>a b d. dly m' (CK_line a b d) = dly x (CK_line a b d)" by simp_all
      have "c'\<lparr>cs_invert := cs_invert ctx\<rparr> = ctx" using fr' fr by (rule invert_frame_trans)
      then show ?thesis
        using l l' k k' by (simp add: rescan_rank_cs_def s Inr r J_def set_dly_frame)
    qed
  qed
  have line_step: "post (\<lambda>_. False) J (rescan_line ch rk ad s)" if "J s" for ch rk ad s
  proof -
    obtain c x where s: "s = (c, x)" by (cases s) auto
    from that have fr: "c\<lparr>cs_invert := cs_invert ctx\<rparr> = ctx"
      and l: "length (helper_arr x) = length (helper_arr m)"
      and k: "\<forall>a b d. dly x (CK_line a b d) = dly m (CK_line a b d)"
      by (simp_all add: J_def s)
    note f = invert_frame [OF fr]
    have p: "post (\<lambda>_. False)
           (\<lambda>m'. helper_arr_it m' = 2 * max_delay_taps c
                 \<and> length (helper_arr m') = length (helper_arr x))
           (CA_scan c ch rk ad x)"
      using t len by (intro CA_scan_post) (simp_all add: f l)
    show ?thesis
    proof (cases "CA_scan c ch rk ad x")
      case (Inl e)
      with p show ?thesis by simp
    next
      case (Inr m')
      from p Inr have l': "length (helper_arr m') = length (helper_arr x)" by simp
      from CA_scan_clock [OF Inr]
      have k': "\<forall>a b d. dly m' (CK_line a b d) = dly x (CK_line a b d)" by simp
      show ?thesis
        using fr l l' k k' by (simp add: rescan_line_def s Inr J_def set_dly_frame)
    qed
  qed
  have ca_step: "post (\<lambda>_. False) J (rescan_rank_ca ch rk s)" if "J s" for ch rk s
  proof (cases "training_type (fst s) = HOST_RCD \<and> rk = 1")
    case True
    with that show ?thesis by (simp add: rescan_rank_ca_def)
  next
    case False
    have "post (\<lambda>_. False) J (for_loopE 0 (ca_line_count (fst s)) (rescan_line ch rk) s)"
      using that line_step by (intro for_loopE_inv) simp_all
    with False show ?thesis by (auto simp: rescan_rank_ca_def)
  qed
  have chan_step: "post (\<lambda>_. False) J
      (bindE (for_loopE 0 (ranks (fst s)) (rescan_rank_cs ch) s) (\<lambda>s.
           for_loopE 0 (ranks (fst s)) (rescan_rank_ca ch) s))" if "J s" for ch s
  proof (rule post_bindE [where P = J])
    show "post (\<lambda>_. False) J (for_loopE 0 (ranks (fst s)) (rescan_rank_cs ch) s)"
      using that cs_step by (intro for_loopE_inv) simp_all
  next
    fix x assume "J x"
    then show "post (\<lambda>_. False) J (for_loopE 0 (ranks (fst x)) (rescan_rank_ca ch) x)"
      using ca_step by (intro for_loopE_inv) simp_all
  qed
  have "J (ctx, m)" by (simp add: J_def)
  then have "post (\<lambda>_. False) J (CS_CA_rescan ctx ck channel m)"
    unfolding CS_CA_rescan_def case_prod_beta Let_def
    using chan_step by (intro for_loopE_inv) simp_all
  then show ?thesis by (simp add: J_def)
qed

lemma signals_of_map:
  "map f (signals_of ctx channel cs ca)
     = signals_of ctx channel (\<lambda>ch rk. f (cs ch rk)) (\<lambda>ch a. f (ca ch a))"
  by (simp add: signals_of_def map_concat comp_def)

lemma signals_of_cong:
  assumes "channels c = channels ctx" "ranks c = ranks ctx" "ca_line_count c = ca_line_count ctx"
    and "\<And>ch rk. fst (channel_scope ctx channel) \<le> ch \<Longrightarrow> ch < snd (channel_scope ctx channel) \<Longrightarrow>
           0 \<le> rk \<Longrightarrow> rk < ranks ctx \<Longrightarrow> cs ch rk = cs' ch rk"
    and "\<And>ch a. fst (channel_scope ctx channel) \<le> ch \<Longrightarrow> ch < snd (channel_scope ctx channel) \<Longrightarrow>
           0 \<le> a \<Longrightarrow> a < ca_line_count ctx \<Longrightarrow> ca ch a = ca' ch a"
  shows "signals_of c channel cs ca = signals_of ctx channel cs' ca'"
proof -
  have sc: "channel_scope c channel = channel_scope ctx channel"
    by (simp add: channel_scope_def assms(1))
  show ?thesis
    unfolding signals_of_def sc assms(2,3)
    by (intro arg_cong [where f = concat] map_cong refl arg_cong2 [where f = append])
       (simp_all add: assms(4,5))
qed

lemma set_signals_of:
  "set (signals_of ctx channel cs ca)
     = {cs ch rk |ch rk. fst (channel_scope ctx channel) \<le> ch \<and> ch < snd (channel_scope ctx channel)
                         \<and> 0 \<le> rk \<and> rk < ranks ctx}
     \<union> {ca ch a |ch a. fst (channel_scope ctx channel) \<le> ch \<and> ch < snd (channel_scope ctx channel)
                         \<and> 0 \<le> a \<and> a < ca_line_count ctx}"
  by (auto simp: signals_of_def; blast)


text \<open>
  C2. \<^verbatim>\<open>CK_CS_CA_finalize_timings\<close> on trained eyes: with at least one tap, the helper
  array at its capacity, a module count in \<open>[0, 32]\<close> and some covered signal whose midpoint
  does not exceed \<open>max_delay_taps\<close> (every address line trained by \<^verbatim>\<open>CA_training\<close> is
  one: its right edge is below \<open>max_delay_taps\<close> and its left edge at most
  \<open>max_delay_taps\<close>), the function returns, and with \<open>min\<close> the least midpoint
  \<open>(right + left) / 2\<close> over the chip-select ranks and address lines covered: the clock
  line is left programmed to \<open>(max_delay_taps - min) mod max_delay_taps\<close>; every final
  delay is its midpoint reduced by \<open>min\<close>; the least final delay is 0 and none is negative.
\<close>

theorem CK_CS_CA_finalize_timings_clock:
  assumes t: "1 \<le> max_delay_taps ctx"
    and cap: "length (helper_arr m) = helper_arr_capacity (max_delay_taps ctx)"
    and mods: "0 \<le> modules ctx" "modules ctx \<le> 32"
    and trained: "\<exists>x\<in>set (trained_midpoints ctx channel). x \<le> max_delay_taps ctx"
  shows "\<exists>ctx' m'. CK_CS_CA_finalize_timings ctx channel m = Inr (ctx', m')
     \<and> dly m' (CK_line channel 0 0)
         = (max_delay_taps ctx - Min (set (trained_midpoints ctx channel))) mod max_delay_taps ctx
     \<and> final_delays ctx' channel
         = map (\<lambda>x. x - Min (set (trained_midpoints ctx channel))) (trained_midpoints ctx channel)
     \<and> Min (set (final_delays ctx' channel)) = 0
     \<and> (\<forall>x\<in>set (final_delays ctx' channel). 0 \<le> x)"
proof -
  define T where "T = max_delay_taps ctx"
  define L where "L = trained_midpoints ctx channel"
  define lo where "lo = fst (channel_scope ctx channel)"
  define hi where "hi = snd (channel_scope ctx channel)"
  have len: "2 * T \<le> int (length (helper_arr m))"
    using t cap by (simp add: helper_arr_capacity_def T_def)
  obtain c1 mn mx where calc: "CS_CA_calculate_midpoints ctx T (- T) channel = (c1, mn, mx)"
    by (cases "CS_CA_calculate_midpoints ctx T (- T) channel") auto
  from CS_CA_calculate_midpoints_result [OF calc lo_def hi_def]
  have fr1: "c1\<lparr>cs_final_delays := cs_final_delays ctx, ca_final_delays := ca_final_delays ctx\<rparr> = ctx"
    and cs1: "\<And>ch rk. lo \<le> ch \<Longrightarrow> ch < hi \<Longrightarrow> 0 \<le> rk \<Longrightarrow> rk < ranks ctx \<Longrightarrow>
            cs_final_delays c1 ch rk = cs_midpoint ctx ch rk \<and> mn \<le> cs_midpoint ctx ch rk"
    and ca1: "\<And>ch a. lo \<le> ch \<Longrightarrow> ch < hi \<Longrightarrow> 0 \<le> a \<Longrightarrow> a < ca_line_count ctx \<Longrightarrow>
            ca_final_delays c1 ch a = ca_midpoint ctx ch a \<and> mn \<le> ca_midpoint ctx ch a"
    and mnT: "mn \<le> T"
    and att: "mn = T
        \<or> (\<exists>ch rk. lo \<le> ch \<and> ch < hi \<and> 0 \<le> rk \<and> rk < ranks ctx \<and> mn = cs_midpoint ctx ch rk)
        \<or> (\<exists>ch a. lo \<le> ch \<and> ch < hi \<and> 0 \<le> a \<and> a < ca_line_count ctx \<and> mn = ca_midpoint ctx ch a)"
    by blast+
  note f1 = finals_frame [OF fr1]
  have setL: "set L = {cs_midpoint ctx ch rk |ch rk. lo \<le> ch \<and> ch < hi \<and> 0 \<le> rk \<and> rk < ranks ctx}
     \<union> {ca_midpoint ctx ch a |ch a. lo \<le> ch \<and> ch < hi \<and> 0 \<le> a \<and> a < ca_line_count ctx}"
    by (simp add: L_def trained_midpoints_def set_signals_of lo_def hi_def)
  have low: "\<And>y. y \<in> set L \<Longrightarrow> mn \<le> y"
    using cs1 ca1 unfolding setL by auto
  have mem: "mn \<in> set L"
  proof (cases "mn = T")
    case True
    from trained obtain x where x: "x \<in> set L" "x \<le> T" by (auto simp: L_def T_def)
    with low [of x] True have "x = mn" by simp
    with x show ?thesis by simp
  next
    case False
    with att show ?thesis unfolding setL by blast
  qed
  have mnMin: "Min (set L) = mn"
    using low mem by (intro Min_eqI) simp_all
  have nck: "(T - mn) smod T = (T - mn) mod T"
    using mnT t by (intro smod_mod_positive) (simp_all add: T_def)
  define nck where "nck = (T - mn) mod T"
  have nck0: "0 \<le> nck" using t by (simp add: nck_def T_def)
  have rem: "c_rem (T - mn) T = Inr nck"
    using t nck by (simp add: c_rem_def nck_def T_def)
  define m1 where "m1 = set_dly (CK_line channel 0 0) nck m"
  have k1: "dly m1 (CK_line channel 0 0) = nck"
    using nck0 by (simp add: m1_def set_dly_programs)
  have h1: "helper_arr m1 = helper_arr m" by (simp add: m1_def set_dly_frame)
  obtain c2 m2 where adj: "CS_CA_set_adjusted_delays c1 mn channel m1 = (c2, m2)"
    by (cases "CS_CA_set_adjusted_delays c1 mn channel m1") auto
  have sc1: "channel_scope c1 channel = channel_scope ctx channel"
    by (simp add: channel_scope_def f1)
  from CS_CA_set_adjusted_delays_result [OF adj, of lo hi]
  have fr2: "c2\<lparr>cs_final_delays := cs_final_delays c1, ca_final_delays := ca_final_delays c1\<rparr> = c1"
    and cs2: "\<And>ch rk. lo \<le> ch \<Longrightarrow> ch < hi \<Longrightarrow> 0 \<le> rk \<Longrightarrow> rk < ranks ctx \<Longrightarrow>
            cs_final_delays c2 ch rk = cs_final_delays c1 ch rk - mn"
    and ca2: "\<And>ch a. lo \<le> ch \<Longrightarrow> ch < hi \<Longrightarrow> 0 \<le> a \<Longrightarrow> a < ca_line_count ctx \<Longrightarrow>
            ca_final_delays c2 ch a = ca_final_delays c1 ch a - mn"
    and h2: "helper_arr m2 = helper_arr m1"
    and k2: "\<And>a b d. dly m2 (CK_line a b d) = dly m1 (CK_line a b d)"
    by (simp_all add: sc1 lo_def hi_def f1)
  note f2 = finals_frame [OF fr2]
  have "post (\<lambda>_. False)
           (\<lambda>(c, m'). c\<lparr>cs_invert := cs_invert c2\<rparr> = c2
               \<and> length (helper_arr m') = length (helper_arr m2)
               \<and> (\<forall>a b d. dly m' (CK_line a b d) = dly m2 (CK_line a b d)))
           (CS_CA_rescan c2 nck channel m2)"
    using t len mods by (intro CS_CA_rescan_post) (simp_all add: f1 f2 h1 h2 T_def)
  then obtain c3 m3 where res: "CS_CA_rescan c2 nck channel m2 = Inr (c3, m3)"
    and fr3: "c3\<lparr>cs_invert := cs_invert c2\<rparr> = c2"
    and k3: "\<And>a b d. dly m3 (CK_line a b d) = dly m2 (CK_line a b d)"
    by (cases "CS_CA_rescan c2 nck channel m2") auto
  note f3 = invert_frame [OF fr3]
  have run: "CK_CS_CA_finalize_timings ctx channel m = Inr (c3, m3)"
    using calc rem adj res
    by (simp add: CK_CS_CA_finalize_timings_def T_def [symmetric] f1 Let_def m1_def [symmetric])
  have clock: "dly m3 (CK_line channel 0 0) = (T - Min (set L)) mod T"
    by (simp add: k3 k2 k1 nck_def mnMin)
  have "final_delays c3 channel
      = signals_of ctx channel (\<lambda>ch rk. cs_midpoint ctx ch rk - mn) (\<lambda>ch a. ca_midpoint ctx ch a - mn)"
    unfolding final_delays_def
  proof (rule signals_of_cong)
    show "channels c3 = channels ctx" "ranks c3 = ranks ctx" "ca_line_count c3 = ca_line_count ctx"
      by (simp_all add: f3 f2 f1)
  next
    fix ch rk
    assume "fst (channel_scope ctx channel) \<le> ch" "ch < snd (channel_scope ctx channel)"
      "0 \<le> rk" "rk < ranks ctx"
    then show "cs_final_delays c3 ch rk = cs_midpoint ctx ch rk - mn"
      using cs1 [of ch rk] cs2 [of ch rk] by (simp add: f3 lo_def hi_def)
  next
    fix ch a
    assume "fst (channel_scope ctx channel) \<le> ch" "ch < snd (channel_scope ctx channel)"
      "0 \<le> a" "a < ca_line_count ctx"
    then show "ca_final_delays c3 ch a = ca_midpoint ctx ch a - mn"
      using ca1 [of ch a] ca2 [of ch a] by (simp add: f3 lo_def hi_def)
  qed
  then have fd: "final_delays c3 channel = map (\<lambda>x. x - Min (set L)) L"
    by (simp add: L_def trained_midpoints_def signals_of_map mnMin [unfolded L_def trained_midpoints_def])
  have nonneg: "\<And>y. y \<in> set (final_delays c3 channel) \<Longrightarrow> 0 \<le> y"
    using low by (auto simp: fd mnMin)
  have zero: "0 \<in> set (final_delays c3 channel)"
    using mem by (force simp: fd mnMin)
  have min0: "Min (set (final_delays c3 channel)) = 0"
    using nonneg zero by (intro Min_eqI) simp_all
  from run clock fd min0 nonneg show ?thesis
    unfolding T_def L_def by blast
qed


theorem CK_CS_CA_finalize_timings_clock_witness:
  "1 \<le> max_delay_taps trained_ctx
   \<and> length (helper_arr (mach_init (replicate 128 0)))
       = helper_arr_capacity (max_delay_taps trained_ctx)
   \<and> 0 \<le> modules trained_ctx \<and> modules trained_ctx \<le> 32
   \<and> trained_midpoints trained_ctx (- 1) = [2, - 1]
   \<and> (\<exists>x\<in>set (trained_midpoints trained_ctx (- 1)). x \<le> max_delay_taps trained_ctx)
   \<and> (\<exists>ctx' m'.
         CK_CS_CA_finalize_timings trained_ctx (- 1) (mach_init (replicate 128 0)) = Inr (ctx', m')
       \<and> dly m' (CK_line (- 1) 0 0) = 1
       \<and> final_delays ctx' (- 1) = [3, 0]
       \<and> Min (set (final_delays ctx' (- 1))) = 0)"
proof -
  have L: "trained_midpoints trained_ctx (- 1) = [2, - 1]"
    by (simp add: trained_midpoints_def signals_of_def channel_scope_def cs_midpoint_def
          ca_midpoint_def trained_ctx_def sample_ctx_def signed_divide_int_def)
  have t: "max_delay_taps trained_ctx = 4" by (simp add: trained_ctx_def sample_ctx_def)
  have h: "1 \<le> max_delay_taps trained_ctx"
    "length (helper_arr (mach_init (replicate 128 0)))
       = helper_arr_capacity (max_delay_taps trained_ctx)"
    "0 \<le> modules trained_ctx" "modules trained_ctx \<le> 32"
    by (simp_all add: trained_ctx_def sample_ctx_def mach_init_def helper_arr_capacity_def)
  have tr: "\<exists>x\<in>set (trained_midpoints trained_ctx (- 1)). x \<le> max_delay_taps trained_ctx"
    by (simp add: L t)
  from CK_CS_CA_finalize_timings_clock [OF h tr]
  have "\<exists>ctx' m'.
         CK_CS_CA_finalize_timings trained_ctx (- 1) (mach_init (replicate 128 0)) = Inr (ctx', m')
       \<and> dly m' (CK_line (- 1) 0 0) = 1
       \<and> final_delays ctx' (- 1) = [3, 0]
       \<and> Min (set (final_delays ctx' (- 1))) = 0"
    by (simp add: L t) blast
  with h L tr show ?thesis by blast
qed

section \<open>Write leveling adjustments\<close>

lemma sdiv_4_of_dvd: "0 \<le> (t::int) \<Longrightarrow> 4 dvd t \<Longrightarrow> 4 * (t sdiv 4) = t"
  by (auto simp: signed_divide_int_def sgn_if)

lemma set_dly_frame':
  "l' \<noteq> l \<Longrightarrow> dly (set_dly l n m) l' = dly m l'"
  using set_dly_frame [of l n m l'] by simp

lemma program_dqs_lines:
  "dly (program_dqs channel module cd m) (WR_DQS_line channel module) = max 0 (fst cd)
   \<and> dly (program_dqs channel module cd m) (ODLY_DQS_line channel module) = max 0 (snd cd)"
  by (simp add: program_dqs_def set_dly_programs set_dly_frame' max_def)

text \<open>
  C8. A run of \<^verbatim>\<open>write_leveling\<close> in which the external search finds a transition
  (its result is not \<open>-1\<close>), with \<open>max_delay_taps\<close> divisible by 4 and both edge searches
  yielding a delay in \<open>[0, max_delay_taps)\<close>: the pair \<open>s\<close> it programs on the DQS lines
  before the internal alignment is the pair of the first edge search moved by exactly
  \<open>-(3/4) * max_delay_taps\<close> in total offset \<open>cycle * max_delay_taps + delay\<close>; the second
  edge search starts from the cycle of \<open>s\<close>; the pair \<open>f\<close> it programs at the end, whose
  cycle it returns, is the pair of the second edge search moved by exactly
  \<open>+(5/4) * max_delay_taps\<close> (four times the change is \<open>-3\<close> and \<open>+5\<close> times the tap
  count). Both adjusted pairs keep the delay component in \<open>[0, max_delay_taps)\<close>, the
  overflow being carried into the cycle component, and after each programming the write
  DQS line holds the cycle (not below 0) and the output DQS delay line the delay of the pair.
\<close>

theorem write_leveling_adjustments:
  assumes "4 dvd max_delay_taps ctx"
    and "wltm_align_external_cycle ws channel rank module (die_width ctx)
           (rst_dly (ODLY_DQS_line channel module) m) = (tc, m1)"
    and "tc \<noteq> - 1"
    and "wltm_align_to_eye_edge ws channel rank module (die_width ctx) (max_delay_taps ctx) tc m1
           = ((c1, d1), m2)"
    and "0 \<le> d1" and "d1 < max_delay_taps ctx"
    and "s = wl_adj_start ctx (c1, d1)"
    and "wltm_align_internal_cycle ws channel rank module (die_width ctx)
           (program_dqs channel module s m2) = m3"
    and "wltm_align_to_eye_edge ws channel rank module (die_width ctx) (max_delay_taps ctx)
           (fst s) m3 = ((c2, d2), m4)"
    and "0 \<le> d2" and "d2 < max_delay_taps ctx"
    and "f = wl_adj_end ctx (c2, d2)"
  shows "write_leveling ws ctx channel rank module m = (fst f, program_dqs channel module f m4)
       \<and> 4 * (wl_total ctx s - wl_total ctx (c1, d1)) = - 3 * max_delay_taps ctx
       \<and> 0 \<le> snd s \<and> snd s < max_delay_taps ctx
       \<and> dly (program_dqs channel module s m2) (WR_DQS_line channel module) = max 0 (fst s)
       \<and> dly (program_dqs channel module s m2) (ODLY_DQS_line channel module) = snd s
       \<and> 4 * (wl_total ctx f - wl_total ctx (c2, d2)) = 5 * max_delay_taps ctx
       \<and> 0 \<le> snd f \<and> snd f < max_delay_taps ctx
       \<and> dly (program_dqs channel module f m4) (WR_DQS_line channel module) = max 0 (fst f)
       \<and> dly (program_dqs channel module f m4) (ODLY_DQS_line channel module) = snd f"
proof -
  let ?t = "max_delay_taps ctx"
  from assms have pos: "0 \<le> ?t" by linarith
  have q: "4 * (?t sdiv 4) = ?t"
    using pos assms(1) by (rule sdiv_4_of_dvd)
  then have q0: "0 \<le> ?t sdiv 4" and q1: "?t sdiv 4 < ?t"
    using assms by linarith+
  have run: "write_leveling ws ctx channel rank module m = (fst f, program_dqs channel module f m4)"
    using assms(2,3,4,8,9) unfolding assms(7,12)
    by (simp add: write_leveling_def Let_def)
  have s: "4 * (wl_total ctx s - wl_total ctx (c1, d1)) = - 3 * ?t" "0 \<le> snd s" "snd s < ?t"
    using q q0 q1 assms(5,6) unfolding assms(7)
    by (simp_all add: wl_adj_start_def wl_total_def Let_def algebra_simps)
  have f: "4 * (wl_total ctx f - wl_total ctx (c2, d2)) = 5 * ?t" "0 \<le> snd f" "snd f < ?t"
    using q q0 q1 assms(10,11) unfolding assms(12)
    by (simp_all add: wl_adj_end_def wl_total_def Let_def algebra_simps)
  have ps: "dly (program_dqs channel module s m2) (WR_DQS_line channel module) = max 0 (fst s)"
    "dly (program_dqs channel module s m2) (ODLY_DQS_line channel module) = snd s"
    using program_dqs_lines [of channel module s m2] s(2) by simp_all
  have pf: "dly (program_dqs channel module f m4) (WR_DQS_line channel module) = max 0 (fst f)"
    "dly (program_dqs channel module f m4) (ODLY_DQS_line channel module) = snd f"
    using program_dqs_lines [of channel module f m4] f(2) by simp_all
  from run s f ps pf show ?thesis by simp
qed

theorem write_leveling_adjustments_witness:
  "4 dvd max_delay_taps sample_ctx
   \<and> fst (wltm_align_external_cycle sample_searches 0 0 0 (die_width sample_ctx)
        (rst_dly (ODLY_DQS_line 0 0) (mach_init []))) = 10
   \<and> wl_adj_start sample_ctx (10, 3) = (10, 0)
   \<and> wl_adj_end sample_ctx (10, 3) = (12, 0)
   \<and> fst (write_leveling sample_searches sample_ctx 0 0 0 (mach_init [])) = 12
   \<and> dly (snd (write_leveling sample_searches sample_ctx 0 0 0 (mach_init []))) (WR_DQS_line 0 0) = 12
   \<and> dly (snd (write_leveling sample_searches sample_ctx 0 0 0 (mach_init []))) (ODLY_DQS_line 0 0) = 0
   \<and> wl_total sample_ctx (10, 0) - wl_total sample_ctx (10, 3) = - 3
   \<and> wl_total sample_ctx (12, 0) - wl_total sample_ctx (10, 3) = 5"
proof -
  let ?m = "mach_init []"
  let ?m1 = "probe (rst_dly (ODLY_DQS_line 0 0) (mach_init []))"
  have h1: "4 dvd max_delay_taps sample_ctx" by (simp add: sample_ctx_def)
  have h2: "wltm_align_external_cycle sample_searches 0 0 0 (die_width sample_ctx)
        (rst_dly (ODLY_DQS_line 0 0) ?m) = (10, ?m1)"
    by (simp add: sample_searches_def)
  have h4: "wltm_align_to_eye_edge sample_searches 0 0 0 (die_width sample_ctx)
        (max_delay_taps sample_ctx) 10 ?m1 = ((10, 3), probe ?m1)"
    by (simp add: sample_searches_def)
  have s: "(10, 0) = wl_adj_start sample_ctx (10, 3)"
    by (simp add: wl_adj_start_def sample_ctx_def signed_divide_int_def)
  have f: "(12, 0) = wl_adj_end sample_ctx (10, 3)"
    by (simp add: wl_adj_end_def sample_ctx_def signed_divide_int_def)
  have h9: "wltm_align_to_eye_edge sample_searches 0 0 0 (die_width sample_ctx)
        (max_delay_taps sample_ctx) (fst (10::int, 0::int))
        (probe (program_dqs 0 0 (10, 0) (probe ?m1)))
          = ((10, 3), probe (probe (program_dqs 0 0 (10, 0) (probe ?m1))))"
    by (simp add: sample_searches_def)
  have h8: "wltm_align_internal_cycle sample_searches 0 0 0 (die_width sample_ctx)
           (program_dqs 0 0 (10, 0) (probe ?m1)) = probe (program_dqs 0 0 (10, 0) (probe ?m1))"
    by (simp add: sample_searches_def)
  have t: "max_delay_taps sample_ctx = 4" by (simp add: sample_ctx_def)
  from write_leveling_adjustments [OF h1 h2 _ h4 _ _ s h8 h9 _ _ f]
  have "write_leveling sample_searches sample_ctx 0 0 0 ?m
          = (fst (12::int, 0::int),
             program_dqs 0 0 (12, 0) (probe (probe (program_dqs 0 0 (10, 0) (probe ?m1)))))
       \<and> 4 * (wl_total sample_ctx (10, 0) - wl_total sample_ctx (10, 3)) = - 3 * 4
       \<and> dly (program_dqs 0 0 (12, 0) (probe (probe (program_dqs 0 0 (10, 0) (probe ?m1)))))
            (WR_DQS_line 0 0) = max 0 (fst (12::int, 0::int))
       \<and> dly (program_dqs 0 0 (12, 0) (probe (probe (program_dqs 0 0 (10, 0) (probe ?m1)))))
            (ODLY_DQS_line 0 0) = snd (12::int, 0::int)
       \<and> 4 * (wl_total sample_ctx (12, 0) - wl_total sample_ctx (10, 3)) = 5 * 4"
    by (simp add: t)
  then have "fst (write_leveling sample_searches sample_ctx 0 0 0 ?m) = 12
   \<and> dly (snd (write_leveling sample_searches sample_ctx 0 0 0 ?m)) (WR_DQS_line 0 0) = 12
   \<and> dly (snd (write_leveling sample_searches sample_ctx 0 0 0 ?m)) (ODLY_DQS_line 0 0) = 0
   \<and> wl_total sample_ctx (10, 0) - wl_total sample_ctx (10, 3) = - 3
   \<and> wl_total sample_ctx (12, 0) - wl_total sample_ctx (10, 3) = 5"
    by simp
  with h1 h2 s f show ?thesis by simp
qed

end
